theory Spec2Isabelle
  imports Complex_Main "HOL-Library.Word"
begin

unbundle bit_operations_syntax

section \<open>Circuit breaker (services/sentinel/circuit-breaker.ts)\<close>

text \<open>
  Time is the number of milliseconds since the Unix epoch, as \<open>Date.now()\<close> gives it.
  A \<open>Date | null\<close> field is a \<open>nat option\<close>. Every public method of the breaker runs
  synchronously, so the clock readings it makes (\<open>new Date()\<close>, \<open>Date.now()\<close>) are
  the one instant \<open>now\<close> that the model passes to the method. Counters are JavaScript
  numbers that are only ever incremented from 0, hence \<open>nat\<close>. Calls to the logger
  write no state of the program and are left out.
\<close>

datatype CircuitState = CLOSED | OPEN | HALF_OPEN

record CircuitBreakerConfig =
  failureThreshold :: nat
  recoveryTimeoutMs :: nat
  successThreshold :: nat

record CircuitBreaker =
  state :: CircuitState
  failureCount :: nat
  successCount :: nat
  lastFailureTime :: "nat option"
  lastStateChange :: nat
  nextAttemptTime :: "nat option"
  sourceId :: string
  config :: CircuitBreakerConfig

text \<open>The constructor: the field initialisers of the class, at construction time \<open>now\<close>.\<close>

definition new_CircuitBreaker :: "nat \<Rightarrow> string \<Rightarrow> CircuitBreakerConfig \<Rightarrow> CircuitBreaker" where
  "new_CircuitBreaker now sid cfg =
     \<lparr>state = CLOSED, failureCount = 0, successCount = 0, lastFailureTime = None,
      lastStateChange = now, nextAttemptTime = None, sourceId = sid, config = cfg\<rparr>"

definition shouldAttemptRecovery :: "nat \<Rightarrow> CircuitBreaker \<Rightarrow> bool" where
  "shouldAttemptRecovery now b =
     (if state b \<noteq> OPEN then False
      else case nextAttemptTime b of
             None \<Rightarrow> False
           | Some t \<Rightarrow> t \<le> now)"

definition transitionTo :: "nat \<Rightarrow> CircuitState \<Rightarrow> CircuitBreaker \<Rightarrow> CircuitBreaker" where
  "transitionTo now newState b =
     (let b1 = b\<lparr>state := newState, lastStateChange := now\<rparr>;
          b2 = (if newState = OPEN
                then b1\<lparr>nextAttemptTime := Some (now + recoveryTimeoutMs (config b1))\<rparr>
                else b1\<lparr>nextAttemptTime := None\<rparr>)
      in if newState = CLOSED then b2\<lparr>failureCount := 0, successCount := 0\<rparr> else b2)"

definition getState :: "nat \<Rightarrow> CircuitBreaker \<Rightarrow> CircuitState \<times> CircuitBreaker" where
  "getState now b =
     (let b1 = (if state b = OPEN \<and> shouldAttemptRecovery now b
                then transitionTo now HALF_OPEN b else b)
      in (state b1, b1))"

definition canExecute :: "nat \<Rightarrow> CircuitBreaker \<Rightarrow> bool \<times> CircuitBreaker" where
  "canExecute now b =
     (case getState now b of (currentState, b1) \<Rightarrow>
        if currentState = CLOSED then (True, b1)
        else if currentState = HALF_OPEN then (True, b1)
        else if shouldAttemptRecovery now b1 then (True, transitionTo now HALF_OPEN b1)
        else (False, b1))"

definition recordSuccess :: "nat \<Rightarrow> CircuitBreaker \<Rightarrow> CircuitBreaker" where
  "recordSuccess now b =
     (let b1 = b\<lparr>successCount := successCount b + 1, failureCount := 0\<rparr>
      in if state b1 = HALF_OPEN
         then (if successThreshold (config b1) \<le> successCount b1
               then transitionTo now CLOSED b1 else b1)
         else b1)"

definition recordFailure :: "nat \<Rightarrow> string \<Rightarrow> CircuitBreaker \<Rightarrow> CircuitBreaker" where
  "recordFailure now err b =
     (let b1 = b\<lparr>failureCount := failureCount b + 1, successCount := 0,
                 lastFailureTime := Some now\<rparr>
      in if state b1 = HALF_OPEN then transitionTo now OPEN b1
         else if failureThreshold (config b1) \<le> failureCount b1 then transitionTo now OPEN b1
         else b1)"

definition reset :: "nat \<Rightarrow> CircuitBreaker \<Rightarrow> CircuitBreaker" where
  "reset now b = (transitionTo now CLOSED b)\<lparr>failureCount := 0, successCount := 0\<rparr>"

record BreakerMetrics =
  m_state :: CircuitState
  m_failureCount :: nat
  m_successCount :: nat
  m_lastFailureTime :: "nat option"
  m_lastStateChange :: nat
  m_nextAttemptTime :: "nat option"

text \<open>\<open>getMetrics\<close> reads the fields; it makes no call and no assignment.\<close>

definition getMetrics :: "CircuitBreaker \<Rightarrow> BreakerMetrics" where
  "getMetrics b =
     \<lparr>m_state = state b, m_failureCount = failureCount b, m_successCount = successCount b,
      m_lastFailureTime = lastFailureTime b, m_lastStateChange = lastStateChange b,
      m_nextAttemptTime = nextAttemptTime b\<rparr>"

text \<open>
  Sequences of calls. A call carries the instant at which it is made. \<open>recordFailures\<close>
  is a run of consecutive \<open>recordFailure\<close> calls, \<open>canExecutes\<close> a run of consecutive
  \<open>canExecute\<close> calls (with the answers collected), and \<open>run_ops\<close> an arbitrary
  interleaving of the breaker's public methods.
\<close>

fun recordFailures :: "(nat \<times> string) list \<Rightarrow> CircuitBreaker \<Rightarrow> CircuitBreaker" where
  "recordFailures [] b = b"
| "recordFailures ((now, err) # calls) b = recordFailures calls (recordFailure now err b)"

fun canExecutes :: "nat list \<Rightarrow> CircuitBreaker \<Rightarrow> bool list \<times> CircuitBreaker" where
  "canExecutes [] b = ([], b)"
| "canExecutes (now # ts) b =
     (case canExecute now b of (r, b1) \<Rightarrow>
        (case canExecutes ts b1 of (rs, b2) \<Rightarrow> (r # rs, b2)))"

datatype BreakerOp = CanExecute | GetState | RecordSuccess | RecordFailure string | Reset | Metrics

fun apply_op :: "nat \<Rightarrow> BreakerOp \<Rightarrow> CircuitBreaker \<Rightarrow> CircuitBreaker" where
  "apply_op now CanExecute b = snd (canExecute now b)"
| "apply_op now GetState b = snd (getState now b)"
| "apply_op now RecordSuccess b = recordSuccess now b"
| "apply_op now (RecordFailure err) b = recordFailure now err b"
| "apply_op now Reset b = reset now b"
| "apply_op now Metrics b = b"

fun run_ops :: "(nat \<times> BreakerOp) list \<Rightarrow> CircuitBreaker \<Rightarrow> CircuitBreaker" where
  "run_ops [] b = b"
| "run_ops ((now, op) # ops) b = run_ops ops (apply_op now op b)"

text \<open>The invariant of the data model: \<open>nextAttemptTime\<close> is set exactly while OPEN.\<close>

definition breaker_inv :: "CircuitBreaker \<Rightarrow> bool" where
  "breaker_inv b = ((nextAttemptTime b \<noteq> None) = (state b = OPEN))"

section \<open>Sentinel service (services/sentinel/index.ts)\<close>

text \<open>
  The three \<open>Map\<close>s of the service are maps from source ids. A latency sample is the
  difference of two \<open>Date.now()\<close> readings, an integer. The average and the uptime are
  quotients of such integers; JavaScript rounds the quotient to the nearest double, the
  model keeps the exact rational. The service is an \<open>EventEmitter\<close>: the model records
  what it emits, in order, in \<open>emitted\<close>.
\<close>

datatype SourceType = T_auto | T_rss | T_atom | T_json | T_html

record SourceConfig =
  src_id :: string
  src_name :: string
  src_url :: string
  src_type :: SourceType
  src_selector :: "string option"
  src_category :: "string option"
  src_priority :: nat
  src_enabled :: bool

record SourceStats =
  totalRequests :: nat
  totalFailures :: nat
  lastSuccess :: "nat option"
  lastFailure :: "nat option"
  lastError :: "string option"
  responseTimes :: "int list"

datatype SentinelEvent =
    SourceHealthy string
  | SourceDegraded string nat
  | SourceUnhealthy string string
  | CircuitOpened string string
  | CircuitClosed string

record SentinelService =
  circuitBreakers :: "string \<rightharpoonup> CircuitBreaker"
  sourceStats :: "string \<rightharpoonup> SourceStats"
  sourceConfigs :: "string \<rightharpoonup> SourceConfig"
  sentinel_config :: CircuitBreakerConfig
  emitted :: "SentinelEvent list"

definition new_SentinelService :: "CircuitBreakerConfig \<Rightarrow> SentinelService" where
  "new_SentinelService cfg =
     \<lparr>circuitBreakers = Map.empty, sourceStats = Map.empty, sourceConfigs = Map.empty,
      sentinel_config = cfg, emitted = []\<rparr>"

definition registerSource :: "nat \<Rightarrow> SourceConfig \<Rightarrow> SentinelService \<Rightarrow> SentinelService" where
  "registerSource now source s =
     (if circuitBreakers s (src_id source) = None
      then s\<lparr>circuitBreakers := (circuitBreakers s)
                 (src_id source \<mapsto> new_CircuitBreaker now (src_id source) (sentinel_config s)),
              sourceStats := (sourceStats s)
                 (src_id source \<mapsto> \<lparr>totalRequests = 0, totalFailures = 0, lastSuccess = None,
                                   lastFailure = None, lastError = None, responseTimes = []\<rparr>),
              sourceConfigs := (sourceConfigs s)(src_id source \<mapsto> source)\<rparr>
      else s)"

definition unregisterSource :: "string \<Rightarrow> SentinelService \<Rightarrow> SentinelService" where
  "unregisterSource sid s =
     s\<lparr>circuitBreakers := (circuitBreakers s)(sid := None),
       sourceStats := (sourceStats s)(sid := None),
       sourceConfigs := (sourceConfigs s)(sid := None)\<rparr>"

definition canRequest :: "nat \<Rightarrow> string \<Rightarrow> SentinelService \<Rightarrow> bool \<times> SentinelService" where
  "canRequest now sid s =
     (case circuitBreakers s sid of
        None \<Rightarrow> (False, s)
      | Some breaker \<Rightarrow>
          (case canExecute now breaker of
             (r, breaker1) \<Rightarrow> (r, s\<lparr>circuitBreakers := (circuitBreakers s)(sid \<mapsto> breaker1)\<rparr>)))"

text \<open>
  \<open>push\<close> followed by the guarded \<open>shift\<close>: the sample goes to the end, and the first
  element is dropped when there are more than 10.
\<close>

definition push_responseTime :: "int \<Rightarrow> int list \<Rightarrow> int list" where
  "push_responseTime ms rts =
     (let r = rts @ [ms] in if 10 < length r then tl r else r)"

definition sentinel_recordSuccess ::
  "nat \<Rightarrow> string \<Rightarrow> int option \<Rightarrow> SentinelService \<Rightarrow> SentinelService" where
  "sentinel_recordSuccess now sid responseTimeMs s =
     (case circuitBreakers s sid of
        None \<Rightarrow> s
      | Some breaker \<Rightarrow>
          (case sourceStats s sid of
             None \<Rightarrow> s
           | Some stats \<Rightarrow>
               (let breaker1 = recordSuccess now breaker;
                    stats1 = stats\<lparr>totalRequests := totalRequests stats + 1,
                                   lastSuccess := Some now\<rparr>;
                    stats2 = (case responseTimeMs of
                                None \<Rightarrow> stats1
                              | Some ms \<Rightarrow>
                                  stats1\<lparr>responseTimes := push_responseTime ms (responseTimes stats1)\<rparr>)
                in s\<lparr>circuitBreakers := (circuitBreakers s)(sid \<mapsto> breaker1),
                      sourceStats := (sourceStats s)(sid \<mapsto> stats2),
                      emitted := emitted s @ [SourceHealthy sid]\<rparr>)))"

definition sentinel_recordFailure ::
  "nat \<Rightarrow> string \<Rightarrow> string \<Rightarrow> SentinelService \<Rightarrow> SentinelService" where
  "sentinel_recordFailure now sid err s =
     (case circuitBreakers s sid of
        None \<Rightarrow> s
      | Some breaker \<Rightarrow>
          (case sourceStats s sid of
             None \<Rightarrow> s
           | Some stats \<Rightarrow>
               (let breaker1 = recordFailure now err breaker;
                    stats1 = stats\<lparr>totalRequests := totalRequests stats + 1,
                                   totalFailures := totalFailures stats + 1,
                                   lastFailure := Some now,
                                   lastError := Some err\<rparr>;
                    metrics = getMetrics breaker1;
                    events = (if m_state metrics = OPEN
                              then [SourceUnhealthy sid err, CircuitOpened sid err]
                              else [SourceDegraded sid (m_failureCount metrics)])
                in s\<lparr>circuitBreakers := (circuitBreakers s)(sid \<mapsto> breaker1),
                      sourceStats := (sourceStats s)(sid \<mapsto> stats1),
                      emitted := emitted s @ events\<rparr>)))"

datatype HealthStatus = HEALTHY | DEGRADED | UNHEALTHY

fun circuitStateToHealthStatus :: "CircuitState \<Rightarrow> HealthStatus" where
  "circuitStateToHealthStatus CLOSED = HEALTHY"
| "circuitStateToHealthStatus HALF_OPEN = DEGRADED"
| "circuitStateToHealthStatus OPEN = UNHEALTHY"

record SourceHealth =
  h_sourceId :: string
  h_sourceName :: string
  h_status :: HealthStatus
  h_circuitState :: CircuitState
  h_consecutiveFailures :: nat
  h_consecutiveSuccesses :: nat
  h_lastSuccess :: "nat option"
  h_lastFailure :: "nat option"
  h_lastError :: "string option"
  h_totalRequests :: nat
  h_totalFailures :: nat
  h_uptime :: rat
  h_responseTimeMs :: "rat option"

definition getSourceHealth :: "string \<Rightarrow> SentinelService \<Rightarrow> SourceHealth option" where
  "getSourceHealth sid s =
     (case (circuitBreakers s sid, sourceStats s sid, sourceConfigs s sid) of
        (Some breaker, Some stats, Some cfg) \<Rightarrow>
          (let metrics = getMetrics breaker;
               avgResponseTime =
                 (if 0 < length (responseTimes stats)
                  then Some (of_int (foldl (+) 0 (responseTimes stats))
                             / of_nat (length (responseTimes stats)))
                  else None);
               uptime =
                 (if 0 < totalRequests stats
                  then ((of_nat (totalRequests stats) - of_nat (totalFailures stats))
                        / of_nat (totalRequests stats)) * 100
                  else 100)
           in Some \<lparr>h_sourceId = sid, h_sourceName = src_name cfg,
                     h_status = circuitStateToHealthStatus (m_state metrics),
                     h_circuitState = m_state metrics,
                     h_consecutiveFailures = m_failureCount metrics,
                     h_consecutiveSuccesses = m_successCount metrics,
                     h_lastSuccess = lastSuccess stats, h_lastFailure = lastFailure stats,
                     h_lastError = lastError stats,
                     h_totalRequests = totalRequests stats,
                     h_totalFailures = totalFailures stats,
                     h_uptime = uptime, h_responseTimeMs = avgResponseTime\<rparr>)
      | _ \<Rightarrow> None)"

definition resetSource :: "nat \<Rightarrow> string \<Rightarrow> SentinelService \<Rightarrow> bool \<times> SentinelService" where
  "resetSource now sid s =
     (case circuitBreakers s sid of
        None \<Rightarrow> (False, s)
      | Some breaker \<Rightarrow>
          (True, s\<lparr>circuitBreakers := (circuitBreakers s)(sid \<mapsto> reset now breaker),
                    emitted := emitted s @ [CircuitClosed sid]\<rparr>))"

text \<open>
  A run of \<open>recordSuccess\<close> calls on the service: each call carries its instant, the
  source id and the optional latency. \<open>samples_for sid\<close> picks the latencies that the
  calls for \<open>sid\<close> carry, in call order; \<open>last10\<close> is the 10 most recent of a sequence.
\<close>

fun recordSuccesses :: "(nat \<times> string \<times> int option) list \<Rightarrow> SentinelService \<Rightarrow> SentinelService" where
  "recordSuccesses [] s = s"
| "recordSuccesses ((now, sid, rt) # calls) s =
     recordSuccesses calls (sentinel_recordSuccess now sid rt s)"

fun samples_for :: "string \<Rightarrow> (nat \<times> string \<times> int option) list \<Rightarrow> int list" where
  "samples_for sid [] = []"
| "samples_for sid ((now, sid', rt) # calls) =
     (case rt of
        Some ms \<Rightarrow> (if sid' = sid then ms # samples_for sid calls else samples_for sid calls)
      | None \<Rightarrow> samples_for sid calls)"

definition last10 :: "'a list \<Rightarrow> 'a list" where
  "last10 xs = drop (length xs - 10) xs"

text \<open>
  The ring of a source is the sequence of its retained samples, when the source has a
  stats record. A source is registered when the service holds a breaker, a stats record
  and a configuration for it, as \<open>registerSource\<close> sets them up.
\<close>

definition ring_of :: "SentinelService \<Rightarrow> string \<Rightarrow> int list option" where
  "ring_of s sid = map_option responseTimes (sourceStats s sid)"

definition registered :: "SentinelService \<Rightarrow> string \<Rightarrow> bool" where
  "registered s sid =
     (circuitBreakers s sid \<noteq> None \<and> sourceStats s sid \<noteq> None \<and> sourceConfigs s sid \<noteq> None)"

section \<open>JavaScript values and strings\<close>

text \<open>
  A JavaScript string is a sequence of UTF-16 code units; the model has the strings whose
  code units are below 256, as \<open>string\<close>, and \<open>charCodeAt\<close> is \<open>of_char\<close>. The values
  that \<open>JSON.parse\<close> and the XML parser build are \<open>jsval\<close>; an object is the list of
  its own properties in insertion order, and the numbers of the model are the integers.
  A \<open>Date\<close> object holds a time value in milliseconds or is an Invalid Date (time value
  NaN).
\<close>

datatype jsval =
    JUndefined
  | JNull
  | JBool bool
  | JNum int
  | JStr string
  | JArr "jsval list"
  | JObj "(string \<times> jsval) list"

datatype JsDate = ValidDate int | InvalidDate

definition toLowerChar :: "char \<Rightarrow> char" where
  "toLowerChar c =
     (let n = (of_char c :: nat)
      in if (65 \<le> n \<and> n \<le> 90) \<or> (192 \<le> n \<and> n \<le> 222 \<and> n \<noteq> 215)
         then char_of (n + 32) else c)"

definition toLowerCase :: "string \<Rightarrow> string" where
  "toLowerCase str = map toLowerChar str"

definition startsWith :: "string \<Rightarrow> string \<Rightarrow> bool" where
  "startsWith str pre = (take (length pre) str = pre)"

fun str_includes :: "string \<Rightarrow> string \<Rightarrow> bool" where
  "str_includes [] sub = (sub = [])"
| "str_includes (c # cs) sub = (startsWith (c # cs) sub \<or> str_includes cs sub)"

section \<open>News items (services/parser/types.ts)\<close>

record NewsItem =
  ni_id :: string
  ni_title :: string
  ni_link :: string
  ni_description :: "string option"
  ni_content :: "string option"
  ni_author :: "string option"
  ni_publishedAt :: "JsDate option"
  ni_categories :: "string list"
  ni_sourceId :: string
  ni_sourceName :: string
  ni_imageUrl :: "string option"
  ni_metadata :: "(string \<times> jsval) list option"

section \<open>What the adapters take from the JavaScript runtime and its libraries\<close>

text \<open>
  The built-ins that the adapters call and that are no code of this program are
  parameters of the model: \<open>String(v)\<close> for a value that is no string, \<open>JSON.stringify\<close>,
  the date parser behind \<open>new Date(str)\<close>, and \<open>new URL(url, base).href\<close> (\<open>None\<close>
  when the constructor throws). Nothing is assumed of them.
\<close>

record JsEnv =
  js_String :: "jsval \<Rightarrow> string"
  JSON_stringify :: "jsval \<Rightarrow> string"
  Date_parse :: "string \<Rightarrow> JsDate"
  URL_href :: "string \<Rightarrow> string \<Rightarrow> string option"

definition String_of :: "JsEnv \<Rightarrow> jsval \<Rightarrow> string" where
  "String_of env v = (case v of JStr s \<Rightarrow> s | _ \<Rightarrow> js_String env v)"

fun truthy :: "jsval \<Rightarrow> bool" where
  "truthy JUndefined = False"
| "truthy JNull = False"
| "truthy (JBool b) = b"
| "truthy (JNum n) = (n \<noteq> 0)"
| "truthy (JStr s) = (s \<noteq> [])"
| "truthy (JArr xs) = True"
| "truthy (JObj kvs) = True"

text \<open>
  \<open>v[key]\<close> for the keys the adapters read: the own property of an object, and
  \<open>undefined\<close> on every other value.
\<close>

fun js_prop :: "jsval \<Rightarrow> string \<Rightarrow> jsval" where
  "js_prop (JObj kvs) key = (case map_of kvs key of Some v \<Rightarrow> v | None \<Rightarrow> JUndefined)"
| "js_prop v key = JUndefined"

text \<open>\<open>a || b\<close> where \<open>a\<close> is a string or undefined: \<open>b\<close> unless \<open>a\<close> is a non-empty string.\<close>

definition or_else :: "string option \<Rightarrow> string \<Rightarrow> string" where
  "or_else a b = (case a of None \<Rightarrow> b | Some s \<Rightarrow> if s = [] then b else s)"

definition or_opt :: "string option \<Rightarrow> string option \<Rightarrow> string option" where
  "or_opt a b = (case a of None \<Rightarrow> b | Some s \<Rightarrow> if s = [] then b else Some s)"

definition str_truthy :: "string option \<Rightarrow> bool" where
  "str_truthy a = (case a of None \<Rightarrow> False | Some s \<Rightarrow> s \<noteq> [])"

definition is_space :: "char \<Rightarrow> bool" where
  "is_space c = ((of_char c :: nat) \<in> {9, 10, 11, 12, 13, 32, 160})"

definition js_trim :: "string \<Rightarrow> string" where
  "js_trim str = rev (dropWhile is_space (rev (dropWhile is_space str)))"

section \<open>The hash of the adapters\<close>

text \<open>
  The loop body is \<open>hash = ((hash << 5) - hash) + char; hash = hash & hash\<close>. At its
  start \<open>hash\<close> is a 32-bit integer; \<open><<\<close> gives a 32-bit integer, the subtraction and
  the addition are exact on doubles (all values are below \<open>2^53\<close>), and \<open>&\<close> brings the
  sum back to 32 bits. So the loop computes in \<open>32 word\<close>. \<open>Math.abs\<close> is taken of the
  signed reading, and the template literal prints it in decimal.
\<close>

definition hash_step :: "32 word \<Rightarrow> char \<Rightarrow> 32 word" where
  "hash_step hash c =
     (let hash1 = (push_bit 5 hash - hash) + of_nat (of_char c)
      in hash1 AND hash1)"

definition hash_loop :: "string \<Rightarrow> 32 word" where
  "hash_loop str = foldl hash_step 0 str"

definition digit_char :: "int \<Rightarrow> char" where
  "digit_char d = char_of (48 + d)"

function show_dec :: "int \<Rightarrow> string" where
  "show_dec n = (if n < 10 then [digit_char n] else show_dec (n div 10) @ [digit_char (n mod 10)])"
  by pat_completeness auto
termination
  by (relation "measure nat") auto

declare show_dec.simps [simp del]

definition abs_hash :: "32 word \<Rightarrow> string" where
  "abs_hash hash = show_dec \<bar>sint hash\<bar>"

definition rss_hashString :: "string \<Rightarrow> string" where
  "rss_hashString str = ''hash-'' @ abs_hash (hash_loop str)"

definition html_hashString :: "string \<Rightarrow> string" where
  "html_hashString str = ''html-'' @ abs_hash (hash_loop str)"

definition hashObject :: "JsEnv \<Rightarrow> jsval \<Rightarrow> string" where
  "hashObject env obj = ''json-'' @ abs_hash (hash_loop (JSON_stringify env obj))"

section \<open>RSS/Atom adapter (services/parser/adapters/rss.ts)\<close>

text \<open>
  An item is the object that the XML parser built for one \<open>item\<close> or \<open>entry\<close> element
  (\<open>Record<string, unknown>\<close>), given by its properties. The parser builds no \<open>null\<close>.
\<close>

definition ensureArray :: "jsval \<Rightarrow> jsval list" where
  "ensureArray v = (if \<not> truthy v then [] else case v of JArr xs \<Rightarrow> xs | _ \<Rightarrow> [v])"

definition rss_getString :: "JsEnv \<Rightarrow> jsval \<Rightarrow> string option" where
  "rss_getString env v =
     (if \<not> truthy v then None
      else case v of
             JStr s \<Rightarrow> Some s
           | JObj kvs \<Rightarrow>
               (case map_of kvs ''#text'' of
                  Some t \<Rightarrow> Some (String_of env t)
                | None \<Rightarrow> Some (String_of env v))
           | _ \<Rightarrow> Some (String_of env v))"

definition parseDate :: "JsEnv \<Rightarrow> jsval \<Rightarrow> JsDate option" where
  "parseDate env v =
     (if \<not> truthy v then None
      else case rss_getString env v of
             None \<Rightarrow> None
           | Some str \<Rightarrow>
               if str = [] then None
               else (case Date_parse env str of InvalidDate \<Rightarrow> None | ValidDate t \<Rightarrow> Some (ValidDate t)))"

definition extractCategories :: "JsEnv \<Rightarrow> jsval \<Rightarrow> string list" where
  "extractCategories env categories =
     map the (filter str_truthy (map (rss_getString env) (ensureArray categories)))"

definition extractRSSImage :: "JsEnv \<Rightarrow> (string \<times> jsval) list \<Rightarrow> string option" where
  "extractRSSImage env item =
     (let enclosure = js_prop (JObj item) ''enclosure'';
          etype = js_prop enclosure ''@_type'';
          media = js_prop (JObj item) ''media:content''
      in if etype \<noteq> JUndefined \<and> etype \<noteq> JNull \<and> startsWith (String_of env etype) ''image''
         then rss_getString env (js_prop enclosure ''@_url'')
         else if truthy media then rss_getString env (js_prop media ''@_url'')
         else None)"

definition parseRSSItem :: "JsEnv \<Rightarrow> (string \<times> jsval) list \<Rightarrow> string \<Rightarrow> string \<Rightarrow> NewsItem option" where
  "parseRSSItem env item sid sname =
     (let link = rss_getString env (js_prop (JObj item) ''link'');
          title = rss_getString env (js_prop (JObj item) ''title'')
      in if \<not> str_truthy link \<and> \<not> str_truthy title then None
         else
           Some \<lparr>ni_id = or_else (rss_getString env (js_prop (JObj item) ''guid''))
                           (or_else link (rss_hashString (or_else title []))),
                 ni_title = or_else title ''Untitled'',
                 ni_link = or_else link [],
                 ni_description = rss_getString env (js_prop (JObj item) ''description''),
                 ni_content = rss_getString env (js_prop (JObj item) ''content:encoded''),
                 ni_author = or_opt (rss_getString env (js_prop (JObj item) ''author''))
                                    (rss_getString env (js_prop (JObj item) ''dc:creator'')),
                 ni_publishedAt = parseDate env (js_prop (JObj item) ''pubDate''),
                 ni_categories = extractCategories env (js_prop (JObj item) ''category''),
                 ni_sourceId = sid, ni_sourceName = sname,
                 ni_imageUrl = extractRSSImage env item,
                 ni_metadata = None\<rparr>)"

definition getAtomLink :: "JsEnv \<Rightarrow> jsval \<Rightarrow> string option" where
  "getAtomLink env links =
     (let linkArray = ensureArray links;
          alternate = find (\<lambda>l. js_prop l ''@_rel'' = JStr ''alternate'' \<or> \<not> truthy (js_prop l ''@_rel''))
                        linkArray;
          first = (case linkArray of [] \<Rightarrow> JUndefined | l # _ \<Rightarrow> l);
          link = (case alternate of None \<Rightarrow> first | Some a \<Rightarrow> if truthy a then a else first)
      in if truthy link then rss_getString env (js_prop link ''@_href'') else None)"

definition getAtomContent :: "JsEnv \<Rightarrow> jsval \<Rightarrow> string option" where
  "getAtomContent env content =
     (if \<not> truthy content then None
      else case content of
             JStr s \<Rightarrow> Some s
           | JObj kvs \<Rightarrow> rss_getString env (js_prop content ''#text'')
           | JArr xs \<Rightarrow> rss_getString env (js_prop content ''#text'')
           | _ \<Rightarrow> None)"

definition getAtomAuthor :: "JsEnv \<Rightarrow> jsval \<Rightarrow> string option" where
  "getAtomAuthor env author =
     (if \<not> truthy author then None
      else case author of
             JStr s \<Rightarrow> Some s
           | JObj kvs \<Rightarrow> rss_getString env (js_prop author ''name'')
           | JArr xs \<Rightarrow> rss_getString env (js_prop author ''name'')
           | _ \<Rightarrow> None)"

definition extractAtomCategories :: "JsEnv \<Rightarrow> jsval \<Rightarrow> string list" where
  "extractAtomCategories env categories =
     map the (filter str_truthy
       (map (\<lambda>c. rss_getString env (js_prop c ''@_term'')) (ensureArray categories)))"

definition parseAtomEntry :: "JsEnv \<Rightarrow> (string \<times> jsval) list \<Rightarrow> string \<Rightarrow> string \<Rightarrow> NewsItem option" where
  "parseAtomEntry env entry sid sname =
     (let link = getAtomLink env (js_prop (JObj entry) ''link'');
          title = rss_getString env (js_prop (JObj entry) ''title'')
      in if \<not> str_truthy link \<and> \<not> str_truthy title then None
         else
           Some \<lparr>ni_id = or_else (rss_getString env (js_prop (JObj entry) ''id''))
                           (or_else link (rss_hashString (or_else title []))),
                 ni_title = or_else title ''Untitled'',
                 ni_link = or_else link [],
                 ni_description = rss_getString env (js_prop (JObj entry) ''summary''),
                 ni_content = getAtomContent env (js_prop (JObj entry) ''content''),
                 ni_author = getAtomAuthor env (js_prop (JObj entry) ''author''),
                 ni_publishedAt =
                   (case parseDate env (js_prop (JObj entry) ''published'') of
                      Some d \<Rightarrow> Some d
                    | None \<Rightarrow> parseDate env (js_prop (JObj entry) ''updated'')),
                 ni_categories = extractAtomCategories env (js_prop (JObj entry) ''category''),
                 ni_sourceId = sid, ni_sourceName = sname,
                 ni_imageUrl = None,
                 ni_metadata = None\<rparr>)"

section \<open>JSON adapter (services/parser/adapters/json.ts)\<close>

fun json_getString :: "JsEnv \<Rightarrow> (string \<times> jsval) list \<Rightarrow> string list \<Rightarrow> string option" where
  "json_getString env obj [] = None"
| "json_getString env obj (key # keys) =
     (case js_prop (JObj obj) key of
        JUndefined \<Rightarrow> json_getString env obj keys
      | JNull \<Rightarrow> json_getString env obj keys
      | JStr s \<Rightarrow> Some s
      | JObj kvs \<Rightarrow>
          (case map_of kvs ''url'' of
             Some u \<Rightarrow> Some (String_of env u)
           | None \<Rightarrow> Some (String_of env (JObj kvs)))
      | v \<Rightarrow> Some (String_of env v))"

fun getArray :: "JsEnv \<Rightarrow> (string \<times> jsval) list \<Rightarrow> string list \<Rightarrow> string list" where
  "getArray env obj [] = []"
| "getArray env obj (key # keys) =
     (case js_prop (JObj obj) key of
        JArr xs \<Rightarrow> map (String_of env) xs
      | _ \<Rightarrow> getArray env obj keys)"

definition knownFields :: "string list" where
  "knownFields =
     [''id'', ''guid'', ''uuid'', ''title'', ''name'', ''headline'',
      ''link'', ''url'', ''href'', ''description'', ''summary'',
      ''content'', ''body'', ''author'', ''creator'', ''publishedAt'',
      ''published_at'', ''pubDate'', ''date'', ''categories'', ''tags'',
      ''image'', ''imageUrl'', ''thumbnail'']"

definition extractMetadata :: "(string \<times> jsval) list \<Rightarrow> (string \<times> jsval) list" where
  "extractMetadata obj = filter (\<lambda>(key, v). key \<notin> set knownFields) obj"

text \<open>
  \<open>mapToNewsItem\<close> takes any parsed value. A value that is falsy or no object gives
  \<open>null\<close>; an array is an object that has none of the link and title keys, so the test
  on \<open>link\<close> and \<open>title\<close> gives \<open>null\<close> for it.
\<close>

definition mapToNewsItem :: "JsEnv \<Rightarrow> jsval \<Rightarrow> string \<Rightarrow> string \<Rightarrow> NewsItem option" where
  "mapToNewsItem env item sid sname =
     (case item of
        JObj obj \<Rightarrow>
          (let link = json_getString env obj [''link'', ''url'', ''href'', ''permalink''];
               title = json_getString env obj [''title'', ''name'', ''headline''];
               publishedStr = json_getString env obj
                 [''publishedAt'', ''published_at'', ''pubDate'', ''date'',
                  ''created'', ''createdAt'', ''created_at'', ''timestamp'']
           in if \<not> str_truthy link \<and> \<not> str_truthy title then None
              else
                Some \<lparr>ni_id = or_else (json_getString env obj [''id'', ''guid'', ''uuid''])
                                (or_else link (hashObject env (JObj obj))),
                      ni_title = or_else title ''Untitled'',
                      ni_link = or_else link [],
                      ni_description =
                        json_getString env obj [''description'', ''summary'', ''excerpt'', ''snippet''],
                      ni_content = json_getString env obj [''content'', ''body'', ''text'', ''full_text''],
                      ni_author = json_getString env obj [''author'', ''creator'', ''by'', ''writer''],
                      ni_publishedAt =
                        (case publishedStr of
                           None \<Rightarrow> None
                         | Some str \<Rightarrow> if str = [] then None else Some (Date_parse env str)),
                      ni_categories = getArray env obj [''categories'', ''tags'', ''topics'', ''labels''],
                      ni_sourceId = sid, ni_sourceName = sname,
                      ni_imageUrl =
                        json_getString env obj [''image'', ''imageUrl'', ''thumbnail'', ''cover'', ''media''],
                      ni_metadata = Some (extractMetadata obj)\<rparr>)
      | _ \<Rightarrow> None)"

section \<open>HTML adapter (services/parser/adapters/html.ts)\<close>

text \<open>
  The element is what node-html-parser found; \<open>extractItem\<close> sees it only through its
  \<open>querySelector\<close> calls, and the model gives the element as their results: the first
  \<open>a[href]\<close> (its \<open>href\<close> attribute and its text), the text of the first title element,
  of the first description element, the \<open>src\<close> of the first \<open>img[src]\<close>, the
  \<open>datetime\<close> of the first \<open>time[datetime]\<close>, the text of the first date element, of
  the first author element, and the texts of all tag elements.
\<close>

record HTMLElement =
  el_link :: "(string \<times> string) option"
  el_title :: "string option"
  el_desc :: "string option"
  el_img :: "string option"
  el_time :: "string option"
  el_date :: "string option"
  el_author :: "string option"
  el_tags :: "string list"

record HtmlOptions =
  opt_selector :: "string option"
  opt_baseUrl :: "string option"

definition resolveUrl :: "JsEnv \<Rightarrow> string \<Rightarrow> string option \<Rightarrow> string" where
  "resolveUrl env url baseUrl =
     (if url = [] then []
      else if startsWith url ''http://'' \<or> startsWith url ''https://'' then url
      else case baseUrl of
             None \<Rightarrow> url
           | Some base \<Rightarrow>
               if base = [] then url
               else (case URL_href env url base of Some href \<Rightarrow> href | None \<Rightarrow> url))"

definition extractItem :: "JsEnv \<Rightarrow> HTMLElement \<Rightarrow> string \<Rightarrow> string \<Rightarrow> HtmlOptions \<Rightarrow> NewsItem option" where
  "extractItem env element sid sname options =
     (let link = or_else (map_option fst (el_link element)) [];
          title = or_else (map_option js_trim (el_title element))
                    (or_else (map_option (js_trim \<circ> snd) (el_link element)) [])
      in if link = [] \<and> title = [] then None
         else
           (let ident = html_hashString (if link \<noteq> [] then link else title);
                dateStr = or_opt (el_time element) (el_date element);
                publishedAt = (case dateStr of
                                 None \<Rightarrow> None
                               | Some str \<Rightarrow> if str = [] then None else Some (Date_parse env str))
            in Some \<lparr>ni_id = ident,
                      ni_title = or_else (Some title) ''Untitled'',
                      ni_link = resolveUrl env link (opt_baseUrl options),
                      ni_description = map_option js_trim (el_desc element),
                      ni_content = None,
                      ni_author = map_option js_trim (el_author element),
                      ni_publishedAt =
                        (case publishedAt of
                           Some (ValidDate t) \<Rightarrow> Some (ValidDate t)
                         | _ \<Rightarrow> None),
                      ni_categories = filter (\<lambda>t. t \<noteq> []) (map js_trim (el_tags element)),
                      ni_sourceId = sid, ni_sourceName = sname,
                      ni_imageUrl =
                        (case el_img element of
                           None \<Rightarrow> None
                         | Some src \<Rightarrow>
                             if src = [] then None
                             else Some (resolveUrl env src (opt_baseUrl options))),
                      ni_metadata = None\<rparr>))"

section \<open>The fetch-news tool (mcp/tools.ts): filter, sort, limit\<close>

text \<open>
  \<open>Array.prototype.sort\<close> with a comparison function. The sort is stable, and with a
  consistent comparison function its result is the one stable sorted arrangement, which
  insertion from the right computes. The comparison function may yield NaN (\<open>None\<close>
  here); the order of the result is then left to the implementation, and the model
  gives \<open>None\<close> for the whole sort.
\<close>

fun insort_cmp :: "('a \<Rightarrow> 'a \<Rightarrow> int option) \<Rightarrow> 'a \<Rightarrow> 'a list \<Rightarrow> 'a list option" where
  "insort_cmp cmp x [] = Some [x]"
| "insort_cmp cmp x (y # ys) =
     (case cmp x y of
        None \<Rightarrow> None
      | Some v \<Rightarrow> if v \<le> 0 then Some (x # y # ys)
                  else map_option ((#) y) (insort_cmp cmp x ys))"

fun js_sort :: "('a \<Rightarrow> 'a \<Rightarrow> int option) \<Rightarrow> 'a list \<Rightarrow> 'a list option" where
  "js_sort cmp [] = Some []"
| "js_sort cmp (x # xs) =
     (case js_sort cmp xs of None \<Rightarrow> None | Some ys \<Rightarrow> insort_cmp cmp x ys)"

text \<open>
  \<open>a.publishedAt ? new Date(a.publishedAt).getTime() : 0\<close>: a missing date counts as
  time 0, an Invalid Date gives NaN.
\<close>

definition item_time :: "NewsItem \<Rightarrow> int option" where
  "item_time a =
     (case ni_publishedAt a of
        None \<Rightarrow> Some 0
      | Some (ValidDate t) \<Rightarrow> Some t
      | Some InvalidDate \<Rightarrow> None)"

definition compare_items :: "NewsItem \<Rightarrow> NewsItem \<Rightarrow> int option" where
  "compare_items a b =
     (case item_time a of
        None \<Rightarrow> None
      | Some dateA \<Rightarrow> (case item_time b of None \<Rightarrow> None | Some dateB \<Rightarrow> Some (dateB - dateA)))"

definition matches_filter :: "string \<Rightarrow> NewsItem \<Rightarrow> bool" where
  "matches_filter lowerFilter item =
     (str_includes (toLowerCase (ni_title item)) lowerFilter \<or>
      (case ni_description item of None \<Rightarrow> False
       | Some d \<Rightarrow> str_includes (toLowerCase d) lowerFilter) \<or>
      (case ni_content item of None \<Rightarrow> False
       | Some c \<Rightarrow> str_includes (toLowerCase c) lowerFilter))"

text \<open>
  The tail of the fetch-news handler, from the aggregated items on: the text filter
  (skipped for a missing or empty filter), the sort, and \<open>slice(0, limit)\<close>.
\<close>

definition fetch_news_select :: "string option \<Rightarrow> nat \<Rightarrow> NewsItem list \<Rightarrow> NewsItem list option" where
  "fetch_news_select flt limit allItems =
     (let allItems1 =
            (case flt of
               None \<Rightarrow> allItems
             | Some f \<Rightarrow> if f = [] then allItems
                         else filter (matches_filter (toLowerCase f)) allItems)
      in map_option (take limit) (js_sort compare_items allItems1))"

text \<open>
  What the properties speak of: the time an item is sorted by, and the case-insensitive
  substring match of a filter against title, description or content.
\<close>

definition eff_time :: "NewsItem \<Rightarrow> int" where
  "eff_time a = (case ni_publishedAt a of Some (ValidDate t) \<Rightarrow> t | _ \<Rightarrow> 0)"

definition ci_contains :: "string \<Rightarrow> string \<Rightarrow> bool" where
  "ci_contains hay needle = (\<exists>p q. toLowerCase hay = p @ toLowerCase needle @ q)"

definition ci_match :: "string \<Rightarrow> NewsItem \<Rightarrow> bool" where
  "ci_match f item =
     (ci_contains (ni_title item) f \<or>
      (\<exists>d. ni_description item = Some d \<and> ci_contains d f) \<or>
      (\<exists>c. ni_content item = Some c \<and> ci_contains c f))"

definition kept_items :: "string option \<Rightarrow> NewsItem list \<Rightarrow> NewsItem list" where
  "kept_items flt items =
     (case flt of None \<Rightarrow> items
      | Some f \<Rightarrow> if f = [] then items else filter (ci_match f) items)"

text \<open>An item for the examples: id, title, description and publish date vary.\<close>

definition mk_item :: "string \<Rightarrow> string \<Rightarrow> string option \<Rightarrow> JsDate option \<Rightarrow> NewsItem" where
  "mk_item i t d p =
     \<lparr>ni_id = i, ni_title = t, ni_link = ''http://example.com/'' @ i, ni_description = d,
      ni_content = None, ni_author = None, ni_publishedAt = p, ni_categories = [],
      ni_sourceId = ''src'', ni_sourceName = ''Source'', ni_imageUrl = None,
      ni_metadata = None\<rparr>"

text \<open>
  For the examples: a runtime whose built-ins give fixed answers (the examples below do
  not depend on them), and an element with a link and a title.
\<close>

definition example_env :: JsEnv where
  "example_env =
     \<lparr>js_String = (\<lambda>v. ''[object Object]''), JSON_stringify = (\<lambda>v. ''{}''),
      Date_parse = (\<lambda>s. InvalidDate), URL_href = (\<lambda>u b. None)\<rparr>"

definition example_element :: HTMLElement where
  "example_element =
     \<lparr>el_link = Some (''https://example.com/a'', ''Hello''), el_title = Some '' Hello '',
      el_desc = None, el_img = None, el_time = None, el_date = None, el_author = None,
      el_tags = []\<rparr>"

section \<open>Properties of the circuit breaker\<close>

lemma transitionTo_state [simp]: "state (transitionTo now s b) = s"
  by (simp add: transitionTo_def Let_def)

lemma transitionTo_config [simp]: "config (transitionTo now s b) = config b"
  by (simp add: transitionTo_def Let_def)

lemma transitionTo_next [simp]:
  "nextAttemptTime (transitionTo now s b) =
     (if s = OPEN then Some (now + recoveryTimeoutMs (config b)) else None)"
  by (simp add: transitionTo_def Let_def)

lemma transitionTo_failureCount [simp]:
  "failureCount (transitionTo now s b) = (if s = CLOSED then 0 else failureCount b)"
  by (simp add: transitionTo_def Let_def)

lemma recordFailure_config [simp]: "config (recordFailure now err b) = config b"
  by (simp add: recordFailure_def Let_def)

lemma recordFailure_failureCount [simp]:
  "failureCount (recordFailure now err b) = failureCount b + 1"
  by (simp add: recordFailure_def Let_def)

lemma recordFailure_OPEN_stays:
  "state b = OPEN \<Longrightarrow> failureThreshold (config b) \<le> failureCount b + 1 \<Longrightarrow>
   state (recordFailure now err b) = OPEN"
  by (simp add: recordFailure_def Let_def)

lemma recordFailure_CLOSED:
  "state b = CLOSED \<Longrightarrow>
   state (recordFailure now err b) =
     (if failureThreshold (config b) \<le> failureCount b + 1 then OPEN else CLOSED)"
  by (simp add: recordFailure_def Let_def)

lemma recordFailures_config [simp]: "config (recordFailures calls b) = config b"
  by (induction calls b rule: recordFailures.induct) simp_all

lemma recordFailures_failureCount:
  "failureCount (recordFailures calls b) = failureCount b + length calls"
  by (induction calls b rule: recordFailures.induct) simp_all

lemma recordFailures_OPEN_stays:
  "state b = OPEN \<Longrightarrow> failureThreshold (config b) \<le> failureCount b + 1 \<Longrightarrow>
   state (recordFailures calls b) = OPEN"
proof (induction calls b rule: recordFailures.induct)
  case (1 b)
  then show ?case by simp
next
  case (2 now err calls b)
  have "state (recordFailure now err b) = OPEN"
    using "2.prems" by (rule recordFailure_OPEN_stays)
  moreover have "failureThreshold (config (recordFailure now err b))
      \<le> failureCount (recordFailure now err b) + 1"
    using "2.prems" by simp
  ultimately show ?case using "2.IH" by simp
qed

text \<open>
  C1. A run of consecutive \<open>recordFailure\<close> calls on a breaker that is CLOSED (with its
  failure count still below the threshold, as it is for a new breaker whose threshold is
  at least 1): after the run the failure count has grown by the number of calls, and the
  breaker is OPEN exactly when that count has reached \<open>failureThreshold\<close>. So it is
  still CLOSED after every call before the one on which the count first reaches the
  threshold, OPEN after that call, and OPEN after every further call.
\<close>

theorem C1_opens_exactly_at_threshold:
  assumes "state b = CLOSED" and "failureCount b < failureThreshold (config b)"
  shows "failureCount (recordFailures calls b) = failureCount b + length calls \<and>
         state (recordFailures calls b) =
           (if failureThreshold (config b) \<le> failureCount b + length calls then OPEN else CLOSED)"
proof -
  have "state (recordFailures calls b) =
          (if failureThreshold (config b) \<le> failureCount b + length calls then OPEN else CLOSED)"
    using assms
  proof (induction calls b rule: recordFailures.induct)
    case (1 b)
    then show ?case by simp
  next
    case (2 now err calls b)
    let ?b1 = "recordFailure now err b"
    show ?case
    proof (cases "failureThreshold (config b) \<le> failureCount b + 1")
      case True
      then have "state ?b1 = OPEN"
        using "2.prems"(1) by (simp add: recordFailure_CLOSED)
      moreover have "failureThreshold (config ?b1) \<le> failureCount ?b1 + 1"
        using True by simp
      ultimately have "state (recordFailures calls ?b1) = OPEN"
        by (rule recordFailures_OPEN_stays)
      then show ?thesis using True by simp
    next
      case False
      then have "state ?b1 = CLOSED"
        using "2.prems"(1) by (simp add: recordFailure_CLOSED)
      moreover have "failureCount ?b1 < failureThreshold (config ?b1)"
        using False by simp
      ultimately show ?thesis using "2.IH" by simp
    qed
  qed
  then show ?thesis by (simp add: recordFailures_failureCount)
qed

theorem C1_witness:
  "state (recordFailures [(10, ''e1''), (20, ''e2'')]
      (new_CircuitBreaker 0 ''src'' \<lparr>failureThreshold = 3, recoveryTimeoutMs = 60000, successThreshold = 2\<rparr>)) = CLOSED
   \<and> state (recordFailures [(10, ''e1''), (20, ''e2''), (30, ''e3'')]
      (new_CircuitBreaker 0 ''src'' \<lparr>failureThreshold = 3, recoveryTimeoutMs = 60000, successThreshold = 2\<rparr>)) = OPEN
   \<and> state (recordFailures [(10, ''e1''), (20, ''e2''), (30, ''e3''), (40, ''e4'')]
      (new_CircuitBreaker 0 ''src'' \<lparr>failureThreshold = 3, recoveryTimeoutMs = 60000, successThreshold = 2\<rparr>)) = OPEN"
  using C1_opens_exactly_at_threshold
    [of "new_CircuitBreaker 0 ''src'' \<lparr>failureThreshold = 3, recoveryTimeoutMs = 60000, successThreshold = 2\<rparr>"
        "[(10, ''e1''), (20, ''e2'')]"]
    C1_opens_exactly_at_threshold
    [of "new_CircuitBreaker 0 ''src'' \<lparr>failureThreshold = 3, recoveryTimeoutMs = 60000, successThreshold = 2\<rparr>"
        "[(10, ''e1''), (20, ''e2''), (30, ''e3'')]"]
    C1_opens_exactly_at_threshold
    [of "new_CircuitBreaker 0 ''src'' \<lparr>failureThreshold = 3, recoveryTimeoutMs = 60000, successThreshold = 2\<rparr>"
        "[(10, ''e1''), (20, ''e2''), (30, ''e3''), (40, ''e4'')]"]
  by (simp add: new_CircuitBreaker_def)


subsection \<open>The recovery window\<close>

lemma getState_blocked:
  "state b = OPEN \<Longrightarrow> nextAttemptTime b = Some d \<Longrightarrow> now < d \<Longrightarrow> getState now b = (OPEN, b)"
  by (simp add: getState_def shouldAttemptRecovery_def)

lemma canExecute_blocked:
  "state b = OPEN \<Longrightarrow> nextAttemptTime b = Some d \<Longrightarrow> now < d \<Longrightarrow> canExecute now b = (False, b)"
  by (simp add: canExecute_def getState_blocked shouldAttemptRecovery_def)

lemma canExecutes_blocked:
  "state b = OPEN \<Longrightarrow> nextAttemptTime b = Some d \<Longrightarrow> \<forall>t \<in> set ts. t < d \<Longrightarrow>
   canExecutes ts b = (replicate (length ts) False, b)"
  by (induction ts) (simp_all add: canExecute_blocked)

lemma getState_recovers:
  "state b = OPEN \<Longrightarrow> nextAttemptTime b = Some d \<Longrightarrow> d \<le> now \<Longrightarrow>
   getState now b = (HALF_OPEN, transitionTo now HALF_OPEN b)"
  by (simp add: getState_def shouldAttemptRecovery_def Let_def)

lemma canExecute_recovers:
  "state b = OPEN \<Longrightarrow> nextAttemptTime b = Some d \<Longrightarrow> d \<le> now \<Longrightarrow>
   canExecute now b = (True, transitionTo now HALF_OPEN b)"
  by (simp add: canExecute_def getState_recovers)

text \<open>
  C2. Let the breaker enter OPEN at \<open>openedAt\<close> (the only way into OPEN is
  \<open>transitionTo\<close>), and let \<open>d = openedAt + recoveryTimeoutMs\<close>. Then every run of
  \<open>canExecute\<close> calls at instants strictly before \<open>d\<close> answers false each time and
  leaves the breaker as it was; a state query before \<open>d\<close> does the same. The first
  \<open>canExecute\<close> at an instant \<open>t \<ge> d\<close> answers true, and it, like a state query at
  \<open>t\<close>, leaves the breaker HALF_OPEN with \<open>nextAttemptTime\<close> cleared. The breaker is
  a value that only its methods change: there is no timer in the model, as there is none
  in the class.
\<close>

theorem C2_recovery_window:
  assumes "bo = transitionTo openedAt OPEN b"
    and "d = openedAt + recoveryTimeoutMs (config b)"
    and "\<forall>t \<in> set ts. t < d"
    and "d \<le> t"
  shows "state bo = OPEN \<and> nextAttemptTime bo = Some d \<and>
         canExecutes ts bo = (replicate (length ts) False, bo) \<and>
         fst (canExecute t bo) = True \<and>
         state (snd (canExecute t bo)) = HALF_OPEN \<and>
         nextAttemptTime (snd (canExecute t bo)) = None \<and>
         fst (getState t bo) = HALF_OPEN \<and>
         state (snd (getState t bo)) = HALF_OPEN \<and>
         nextAttemptTime (snd (getState t bo)) = None"
proof -
  have st: "state bo = OPEN" and nx: "nextAttemptTime bo = Some d"
    using assms(1,2) by simp_all
  have blocked: "canExecutes ts bo = (replicate (length ts) False, bo)"
    using st nx assms(3) by (rule canExecutes_blocked)
  have ce: "canExecute t bo = (True, transitionTo t HALF_OPEN bo)"
    using st nx assms(4) by (rule canExecute_recovers)
  have gs: "getState t bo = (HALF_OPEN, transitionTo t HALF_OPEN bo)"
    using st nx assms(4) by (rule getState_recovers)
  show ?thesis using st nx blocked by (simp add: ce gs)
qed

theorem C2_witness:
  "canExecutes [1000, 30000, 60999]
     (transitionTo 1000 OPEN (new_CircuitBreaker 0 ''src''
        \<lparr>failureThreshold = 3, recoveryTimeoutMs = 60000, successThreshold = 2\<rparr>))
   = ([False, False, False],
      transitionTo 1000 OPEN (new_CircuitBreaker 0 ''src''
        \<lparr>failureThreshold = 3, recoveryTimeoutMs = 60000, successThreshold = 2\<rparr>))
   \<and> fst (canExecute 61000
        (transitionTo 1000 OPEN (new_CircuitBreaker 0 ''src''
          \<lparr>failureThreshold = 3, recoveryTimeoutMs = 60000, successThreshold = 2\<rparr>))) = True
   \<and> state (snd (canExecute 61000
        (transitionTo 1000 OPEN (new_CircuitBreaker 0 ''src''
          \<lparr>failureThreshold = 3, recoveryTimeoutMs = 60000, successThreshold = 2\<rparr>)))) = HALF_OPEN"
  using C2_recovery_window
    [of "transitionTo 1000 OPEN (new_CircuitBreaker 0 ''src''
          \<lparr>failureThreshold = 3, recoveryTimeoutMs = 60000, successThreshold = 2\<rparr>)"
        1000
        "new_CircuitBreaker 0 ''src''
          \<lparr>failureThreshold = 3, recoveryTimeoutMs = 60000, successThreshold = 2\<rparr>"
        61000 "[1000, 30000, 60999]" 61000]
  by (simp add: new_CircuitBreaker_def)

subsection \<open>Failures while HALF_OPEN or OPEN\<close>

text \<open>
  C3. On a HALF_OPEN breaker a single \<open>recordFailure\<close> at instant \<open>now\<close> gives OPEN
  with \<open>nextAttemptTime = now + recoveryTimeoutMs\<close>, whatever the failure count, the
  failure threshold and the number of successes recorded so far are.
\<close>

theorem C3_half_open_failure_reopens:
  assumes "state b = HALF_OPEN"
  shows "state (recordFailure now err b) = OPEN \<and>
         nextAttemptTime (recordFailure now err b) = Some (now + recoveryTimeoutMs (config b)) \<and>
         lastFailureTime (recordFailure now err b) = Some now"
  using assms by (simp add: recordFailure_def transitionTo_def Let_def)

theorem C3_witness:
  "state (recordFailure 70000 ''boom''
      (recordSuccess 65000 (snd (canExecute 61000
        (transitionTo 1000 OPEN (new_CircuitBreaker 0 ''src''
          \<lparr>failureThreshold = 3, recoveryTimeoutMs = 60000, successThreshold = 2\<rparr>)))))) = OPEN
   \<and> nextAttemptTime (recordFailure 70000 ''boom''
      (recordSuccess 65000 (snd (canExecute 61000
        (transitionTo 1000 OPEN (new_CircuitBreaker 0 ''src''
          \<lparr>failureThreshold = 3, recoveryTimeoutMs = 60000, successThreshold = 2\<rparr>)))))) = Some 130000"
proof -
  let ?h = "recordSuccess 65000 (snd (canExecute 61000
        (transitionTo 1000 OPEN (new_CircuitBreaker 0 ''src''
          \<lparr>failureThreshold = 3, recoveryTimeoutMs = 60000, successThreshold = 2\<rparr>))))"
  have h: "state ?h = HALF_OPEN"
    by (simp add: recordSuccess_def canExecute_def getState_def shouldAttemptRecovery_def
        transitionTo_def new_CircuitBreaker_def Let_def)
  have c: "recoveryTimeoutMs (config ?h) = 60000"
    by (simp add: recordSuccess_def canExecute_def getState_def shouldAttemptRecovery_def
        transitionTo_def new_CircuitBreaker_def Let_def)
  show ?thesis
    using C3_half_open_failure_reopens [OF h, of 70000 "''boom''"] by (simp add: c)
qed

text \<open>
  C9. On a breaker that is already OPEN with its failure count at or above the threshold,
  \<open>recordFailure\<close> at instant \<open>now\<close> enters OPEN again (\<open>lastStateChange\<close> becomes
  \<open>now\<close>) and sets \<open>nextAttemptTime\<close> to \<open>now + recoveryTimeoutMs\<close>. When the breaker
  had opened at an earlier instant \<open>openedAt\<close>, the new deadline is later than the one
  that opening had set.
\<close>

theorem C9_open_failure_extends_window:
  assumes "state b = OPEN"
    and "failureThreshold (config b) \<le> failureCount b"
    and "nextAttemptTime b = Some (openedAt + recoveryTimeoutMs (config b))"
    and "openedAt < now"
  shows "state (recordFailure now err b) = OPEN \<and>
         lastStateChange (recordFailure now err b) = now \<and>
         nextAttemptTime (recordFailure now err b) = Some (now + recoveryTimeoutMs (config b)) \<and>
         the (nextAttemptTime b) < the (nextAttemptTime (recordFailure now err b))"
  using assms by (simp add: recordFailure_def transitionTo_def Let_def)

theorem C9_witness:
  "nextAttemptTime (recordFailures [(10, ''e1''), (20, ''e2''), (30, ''e3'')]
      (new_CircuitBreaker 0 ''src''
        \<lparr>failureThreshold = 3, recoveryTimeoutMs = 60000, successThreshold = 2\<rparr>)) = Some 60030
   \<and> nextAttemptTime (recordFailure 40 ''e4''
      (recordFailures [(10, ''e1''), (20, ''e2''), (30, ''e3'')]
        (new_CircuitBreaker 0 ''src''
          \<lparr>failureThreshold = 3, recoveryTimeoutMs = 60000, successThreshold = 2\<rparr>))) = Some 60040"
proof -
  let ?b = "recordFailures [(10, ''e1''), (20, ''e2''), (30, ''e3'')]
      (new_CircuitBreaker 0 ''src''
        \<lparr>failureThreshold = 3, recoveryTimeoutMs = 60000, successThreshold = 2\<rparr>)"
  have s: "state ?b = OPEN" and f: "failureThreshold (config ?b) \<le> failureCount ?b"
    and n: "nextAttemptTime ?b = Some (30 + recoveryTimeoutMs (config ?b))"
    by (simp_all add: recordFailure_def transitionTo_def new_CircuitBreaker_def Let_def)
  have c: "recoveryTimeoutMs (config ?b) = 60000"
    by (simp add: new_CircuitBreaker_def)
  have lt: "(30::nat) < 40" by simp
  show ?thesis
    using C9_open_failure_extends_window [OF s f n lt, of "''e4''"] n
    by (simp add: new_CircuitBreaker_def)
qed

subsection \<open>Metrics\<close>

text \<open>
  C5, as the code has it. \<open>getMetrics\<close> returns the fields of the breaker as they are
  and changes nothing: it does not go through the state getter, so it makes no
  OPEN to HALF_OPEN check. On an OPEN breaker at or after \<open>nextAttemptTime\<close> it
  reports OPEN (and the deadline still set), where the state getter at the same instant
  reports HALF_OPEN.
\<close>

theorem C5_metrics_plain_snapshot:
  "m_state (getMetrics b) = state b \<and>
   m_failureCount (getMetrics b) = failureCount b \<and>
   m_successCount (getMetrics b) = successCount b \<and>
   m_lastFailureTime (getMetrics b) = lastFailureTime b \<and>
   m_lastStateChange (getMetrics b) = lastStateChange b \<and>
   m_nextAttemptTime (getMetrics b) = nextAttemptTime b \<and>
   (state b = OPEN \<and> nextAttemptTime b = Some d \<and> d \<le> now \<longrightarrow>
      m_state (getMetrics b) = OPEN \<and> m_nextAttemptTime (getMetrics b) = Some d \<and>
      fst (getState now b) = HALF_OPEN)"
  by (simp add: getMetrics_def getState_recovers)

theorem C5_witness:
  "m_state (getMetrics (transitionTo 1000 OPEN (new_CircuitBreaker 0 ''src''
      \<lparr>failureThreshold = 3, recoveryTimeoutMs = 60000, successThreshold = 2\<rparr>))) = OPEN
   \<and> fst (getState 70000 (transitionTo 1000 OPEN (new_CircuitBreaker 0 ''src''
      \<lparr>failureThreshold = 3, recoveryTimeoutMs = 60000, successThreshold = 2\<rparr>))) = HALF_OPEN"
  using C5_metrics_plain_snapshot
    [of "transitionTo 1000 OPEN (new_CircuitBreaker 0 ''src''
          \<lparr>failureThreshold = 3, recoveryTimeoutMs = 60000, successThreshold = 2\<rparr>)"
        61000 70000]
  by (simp add: new_CircuitBreaker_def)

text \<open>
  The statement of the specification fails here: the breaker below is OPEN, its
  \<open>nextAttemptTime\<close> is 61000, and a \<open>getMetrics\<close> call at any later instant does not
  report HALF_OPEN.
\<close>

theorem C5_counterexample:
  "state (transitionTo 1000 OPEN (new_CircuitBreaker 0 ''src''
      \<lparr>failureThreshold = 3, recoveryTimeoutMs = 60000, successThreshold = 2\<rparr>)) = OPEN
   \<and> nextAttemptTime (transitionTo 1000 OPEN (new_CircuitBreaker 0 ''src''
      \<lparr>failureThreshold = 3, recoveryTimeoutMs = 60000, successThreshold = 2\<rparr>)) = Some 61000
   \<and> m_state (getMetrics (transitionTo 1000 OPEN (new_CircuitBreaker 0 ''src''
      \<lparr>failureThreshold = 3, recoveryTimeoutMs = 60000, successThreshold = 2\<rparr>))) \<noteq> HALF_OPEN"
  by (simp add: getMetrics_def new_CircuitBreaker_def)

subsection \<open>The invariant of \<open>nextAttemptTime\<close>\<close>

lemma breaker_inv_transitionTo: "breaker_inv (transitionTo now s b)"
  by (simp add: breaker_inv_def)

lemma breaker_inv_getState: "breaker_inv b \<Longrightarrow> breaker_inv (snd (getState now b))"
  by (simp add: getState_def Let_def breaker_inv_transitionTo)

lemma breaker_inv_canExecute: "breaker_inv b \<Longrightarrow> breaker_inv (snd (canExecute now b))"
  using breaker_inv_getState [of b now]
  by (auto simp: canExecute_def breaker_inv_transitionTo split: prod.splits)

lemma breaker_inv_recordSuccess: "breaker_inv b \<Longrightarrow> breaker_inv (recordSuccess now b)"
  by (auto simp: recordSuccess_def Let_def breaker_inv_def)

lemma breaker_inv_recordFailure: "breaker_inv b \<Longrightarrow> breaker_inv (recordFailure now err b)"
  by (auto simp: recordFailure_def Let_def breaker_inv_def)

lemma breaker_inv_reset: "breaker_inv (reset now b)"
  by (simp add: reset_def breaker_inv_def)

lemma breaker_inv_apply_op: "breaker_inv b \<Longrightarrow> breaker_inv (apply_op now op b)"
  by (cases op)
    (simp_all add: breaker_inv_canExecute breaker_inv_getState breaker_inv_recordSuccess
      breaker_inv_recordFailure breaker_inv_reset)

lemma breaker_inv_run_ops: "breaker_inv b \<Longrightarrow> breaker_inv (run_ops ops b)"
  by (induction ops b rule: run_ops.induct) (simp_all add: breaker_inv_apply_op)

text \<open>
  C6. A new breaker is CLOSED with \<open>nextAttemptTime\<close> null, and after any sequence of
  \<open>canExecute\<close>, state query, \<open>recordSuccess\<close>, \<open>recordFailure\<close>, \<open>reset\<close> and
  \<open>getMetrics\<close> calls, made at any instants, \<open>nextAttemptTime\<close> is non-null if and
  only if the state is OPEN. The sequence is arbitrary, so this holds after each call.
\<close>

theorem C6_nextAttemptTime_iff_OPEN:
  "state (new_CircuitBreaker t0 sid cfg) = CLOSED \<and>
   nextAttemptTime (new_CircuitBreaker t0 sid cfg) = None \<and>
   ((nextAttemptTime (run_ops ops (new_CircuitBreaker t0 sid cfg)) \<noteq> None) =
    (state (run_ops ops (new_CircuitBreaker t0 sid cfg)) = OPEN))"
proof -
  have "breaker_inv (new_CircuitBreaker t0 sid cfg)"
    by (simp add: breaker_inv_def new_CircuitBreaker_def)
  then have "breaker_inv (run_ops ops (new_CircuitBreaker t0 sid cfg))"
    by (rule breaker_inv_run_ops)
  then show ?thesis by (simp add: breaker_inv_def new_CircuitBreaker_def)
qed


section \<open>Properties of the Sentinel service\<close>

lemma push_responseTime_last10:
  "length rts \<le> 10 \<Longrightarrow> push_responseTime ms rts = last10 (rts @ [ms])"
  by (cases rts) (auto simp: push_responseTime_def last10_def Let_def drop_Cons')

lemma length_last10: "length (last10 xs) \<le> 10"
  by (simp add: last10_def)

lemma last10_short: "length xs \<le> 10 \<Longrightarrow> last10 xs = xs"
  by (simp add: last10_def)

lemma last10_append: "last10 (last10 xs @ ys) = last10 (xs @ ys)"
proof (cases "length xs \<le> 10")
  case True
  then show ?thesis by (simp add: last10_short)
next
  case False
  then have "length (last10 xs) = 10" by (simp add: last10_def)
  then show ?thesis using False by (simp add: last10_def add.commute)
qed

lemma foldl_plus_sum_list: "foldl (+) a xs = a + sum_list (xs :: int list)"
  by (induction xs arbitrary: a) simp_all

lemma sentinel_recordSuccess_registered:
  "registered s sid \<Longrightarrow> registered (sentinel_recordSuccess now sid' rt s) sid"
  by (auto simp: registered_def sentinel_recordSuccess_def Let_def split: option.splits)

lemma sentinel_recordSuccess_ring:
  assumes "registered s sid" and "ring_of s sid = Some r" and "length r \<le> 10"
  shows "ring_of (sentinel_recordSuccess now sid' rt s) sid =
           Some (last10 (r @ samples_for sid [(now, sid', rt)]))"
  using assms
  by (auto simp: registered_def ring_of_def sentinel_recordSuccess_def Let_def last10_short
      push_responseTime_last10 split: option.splits)

lemma recordSuccesses_registered:
  "registered s sid \<Longrightarrow> registered (recordSuccesses calls s) sid"
  by (induction calls s rule: recordSuccesses.induct)
    (simp_all add: sentinel_recordSuccess_registered)

lemma samples_for_Cons:
  "samples_for sid (c # calls) = samples_for sid [c] @ samples_for sid calls"
  by (cases c) (auto split: option.splits)

lemma recordSuccesses_ring:
  assumes "registered s sid" and "ring_of s sid = Some r" and "length r \<le> 10"
  shows "ring_of (recordSuccesses calls s) sid = Some (last10 (r @ samples_for sid calls))"
  using assms
proof (induction calls s arbitrary: r rule: recordSuccesses.induct)
  case (1 s)
  then show ?case by (simp add: last10_short)
next
  case (2 now sid' rt calls s)
  let ?s1 = "sentinel_recordSuccess now sid' rt s"
  let ?r1 = "last10 (r @ samples_for sid [(now, sid', rt)])"
  have reg: "registered ?s1 sid"
    using "2.prems"(1) by (rule sentinel_recordSuccess_registered)
  have ring: "ring_of ?s1 sid = Some ?r1"
    using "2.prems" by (rule sentinel_recordSuccess_ring)
  have "ring_of (recordSuccesses calls ?s1) sid = Some (last10 (?r1 @ samples_for sid calls))"
    using reg ring length_last10 by (rule "2.IH")
  also have "last10 (?r1 @ samples_for sid calls)
      = last10 (r @ samples_for sid ((now, sid', rt) # calls))"
    unfolding last10_append samples_for_Cons [of sid "(now, sid', rt)" calls] by simp
  finally show ?case by simp
qed

lemma getSourceHealth_avg:
  assumes "registered s sid" and "ring_of s sid = Some r"
  shows "\<exists>h. getSourceHealth sid s = Some h \<and>
             h_responseTimeMs h =
               (if r = [] then None else Some (of_int (sum_list r) / of_nat (length r)))"
  using assms
  by (auto simp: registered_def ring_of_def getSourceHealth_def Let_def foldl_plus_sum_list)

text \<open>
  C7. Take a registered source whose retained samples \<open>r\<close> are at most 10 (a newly
  registered source has none), and any sequence of \<open>recordSuccess\<close> calls on the
  service, for this or other sources, with or without a latency. Afterwards the
  retained samples of the source are the 10 most recent of \<open>r\<close> followed by the
  latencies its own calls carried, in order, so never more than 10 and the oldest are the
  ones dropped; the reported average is the mean of exactly these. When the source
  started with no sample and its calls carried 11 latencies \<open>x, xs\<close>, the retained
  samples are \<open>xs\<close> and the average is the mean of \<open>xs\<close>: the first sample \<open>x\<close> is
  gone.
\<close>

theorem C7_response_time_ring:
  assumes "registered s sid" and "ring_of s sid = Some r" and "length r \<le> 10"
  shows "ring_of (recordSuccesses calls s) sid = Some (last10 (r @ samples_for sid calls)) \<and>
         length (last10 (r @ samples_for sid calls)) \<le> 10 \<and>
         (\<exists>h. getSourceHealth sid (recordSuccesses calls s) = Some h \<and>
              h_responseTimeMs h =
                (if last10 (r @ samples_for sid calls) = [] then None
                 else Some (of_int (sum_list (last10 (r @ samples_for sid calls)))
                            / of_nat (length (last10 (r @ samples_for sid calls)))))) \<and>
         (r = [] \<and> samples_for sid calls = x # xs \<and> length xs = 10 \<longrightarrow>
            ring_of (recordSuccesses calls s) sid = Some xs \<and>
            (\<exists>h. getSourceHealth sid (recordSuccesses calls s) = Some h \<and>
                 h_responseTimeMs h = Some (of_int (sum_list xs) / 10)))"
proof -
  let ?s' = "recordSuccesses calls s"
  let ?ring = "last10 (r @ samples_for sid calls)"
  have reg: "registered ?s' sid"
    using assms(1) by (rule recordSuccesses_registered)
  have ring: "ring_of ?s' sid = Some ?ring"
    using assms by (rule recordSuccesses_ring)
  have avg: "\<exists>h. getSourceHealth sid ?s' = Some h \<and>
               h_responseTimeMs h =
                 (if ?ring = [] then None
                  else Some (of_int (sum_list ?ring) / of_nat (length ?ring)))"
    using reg ring by (rule getSourceHealth_avg)
  have eleven: "r = [] \<and> samples_for sid calls = x # xs \<and> length xs = 10 \<longrightarrow>
            ring_of ?s' sid = Some xs \<and>
            (\<exists>h. getSourceHealth sid ?s' = Some h \<and>
                 h_responseTimeMs h = Some (of_int (sum_list xs) / 10))"
  proof
    assume a: "r = [] \<and> samples_for sid calls = x # xs \<and> length xs = 10"
    then have eq: "?ring = xs" by (simp add: last10_def)
    have ne: "xs \<noteq> []" using a by auto
    show "ring_of ?s' sid = Some xs \<and>
            (\<exists>h. getSourceHealth sid ?s' = Some h \<and>
                 h_responseTimeMs h = Some (of_int (sum_list xs) / 10))"
      using ring avg a ne unfolding eq by simp
  qed
  show ?thesis using ring avg eleven length_last10 [of "r @ samples_for sid calls"] by blast
qed

theorem C7_witness:
  "ring_of (recordSuccesses
       [(1, ''a'', Some 100), (2, ''a'', Some 1), (3, ''a'', Some 2), (4, ''a'', Some 3),
        (5, ''a'', Some 4), (6, ''a'', Some 5), (7, ''a'', Some 6), (8, ''a'', Some 7),
        (9, ''a'', Some 8), (10, ''a'', Some 9), (11, ''a'', Some 10)]
       (registerSource 0
          \<lparr>src_id = ''a'', src_name = ''A'', src_url = ''http://a'', src_type = T_rss,
           src_selector = None, src_category = None, src_priority = 50, src_enabled = True\<rparr>
          (new_SentinelService
             \<lparr>failureThreshold = 3, recoveryTimeoutMs = 60000, successThreshold = 2\<rparr>))) ''a''
     = Some [1, 2, 3, 4, 5, 6, 7, 8, 9, 10]
   \<and> (\<exists>h. getSourceHealth ''a'' (recordSuccesses
       [(1, ''a'', Some 100), (2, ''a'', Some 1), (3, ''a'', Some 2), (4, ''a'', Some 3),
        (5, ''a'', Some 4), (6, ''a'', Some 5), (7, ''a'', Some 6), (8, ''a'', Some 7),
        (9, ''a'', Some 8), (10, ''a'', Some 9), (11, ''a'', Some 10)]
       (registerSource 0
          \<lparr>src_id = ''a'', src_name = ''A'', src_url = ''http://a'', src_type = T_rss,
           src_selector = None, src_category = None, src_priority = 50, src_enabled = True\<rparr>
          (new_SentinelService
             \<lparr>failureThreshold = 3, recoveryTimeoutMs = 60000, successThreshold = 2\<rparr>))) = Some h
        \<and> h_responseTimeMs h = Some (11 / 2))"
proof -
  let ?s = "registerSource 0
          \<lparr>src_id = ''a'', src_name = ''A'', src_url = ''http://a'', src_type = T_rss,
           src_selector = None, src_category = None, src_priority = 50, src_enabled = True\<rparr>
          (new_SentinelService
             \<lparr>failureThreshold = 3, recoveryTimeoutMs = 60000, successThreshold = 2\<rparr>)"
  let ?calls = "[(1::nat, ''a'', Some (100::int)), (2, ''a'', Some 1), (3, ''a'', Some 2), (4, ''a'', Some 3),
        (5, ''a'', Some 4), (6, ''a'', Some 5), (7, ''a'', Some 6), (8, ''a'', Some 7),
        (9, ''a'', Some 8), (10, ''a'', Some 9), (11, ''a'', Some 10)]"
  have reg: "registered ?s ''a''"
    by (simp add: registered_def registerSource_def new_SentinelService_def)
  have ring: "ring_of ?s ''a'' = Some []"
    by (simp add: ring_of_def registerSource_def new_SentinelService_def)
  have len: "length ([] :: int list) \<le> 10" by simp
  have smp: "samples_for ''a'' ?calls = 100 # [1, 2, 3, 4, 5, 6, 7, 8, 9, 10]" by simp
  have pre: "[] = ([] :: int list) \<and> samples_for ''a'' ?calls = 100 # [1, 2, 3, 4, 5, 6, 7, 8, 9, 10]
      \<and> length [1, 2, 3, 4, 5, 6, 7, 8, 9, 10 :: int] = 10"
    by simp
  have "ring_of (recordSuccesses ?calls ?s) ''a'' = Some [1, 2, 3, 4, 5, 6, 7, 8, 9, 10] \<and>
        (\<exists>h. getSourceHealth ''a'' (recordSuccesses ?calls ?s) = Some h \<and>
             h_responseTimeMs h = Some (of_int (sum_list [1, 2, 3, 4, 5, 6, 7, 8, 9, 10]) / 10))"
    using C7_response_time_ring [OF reg ring len, of ?calls 100 "[1, 2, 3, 4, 5, 6, 7, 8, 9, 10]",
        THEN conjunct2, THEN conjunct2, THEN conjunct2] pre
    by (rule mp)
  moreover have "(of_int (sum_list [1, 2, 3, 4, 5, 6, 7, 8, 9, 10]) / 10 :: rat) = 11 / 2"
    by simp
  ultimately show ?thesis by (simp only:)
qed

text \<open>
  C10. For a source id that has no breaker or no stats record (an id that was never
  registered, or was unregistered), \<open>recordSuccess\<close> and \<open>recordFailure\<close> of the
  service return the service as it was: the same breakers, stats, configs and the same
  sequence of emitted notifications.
\<close>

theorem C10_unregistered_noop:
  assumes "circuitBreakers s sid = None \<or> sourceStats s sid = None"
  shows "sentinel_recordSuccess now sid rt s = s \<and> sentinel_recordFailure now sid err s = s"
  using assms
  by (auto simp: sentinel_recordSuccess_def sentinel_recordFailure_def split: option.splits)

theorem C10_witness:
  "sentinel_recordSuccess 5 ''ghost'' (Some 12)
     (registerSource 0
          \<lparr>src_id = ''a'', src_name = ''A'', src_url = ''http://a'', src_type = T_rss,
           src_selector = None, src_category = None, src_priority = 50, src_enabled = True\<rparr>
          (new_SentinelService
             \<lparr>failureThreshold = 3, recoveryTimeoutMs = 60000, successThreshold = 2\<rparr>))
   = registerSource 0
          \<lparr>src_id = ''a'', src_name = ''A'', src_url = ''http://a'', src_type = T_rss,
           src_selector = None, src_category = None, src_priority = 50, src_enabled = True\<rparr>
          (new_SentinelService
             \<lparr>failureThreshold = 3, recoveryTimeoutMs = 60000, successThreshold = 2\<rparr>)
   \<and> sentinel_recordFailure 5 ''ghost'' ''timeout''
     (registerSource 0
          \<lparr>src_id = ''a'', src_name = ''A'', src_url = ''http://a'', src_type = T_rss,
           src_selector = None, src_category = None, src_priority = 50, src_enabled = True\<rparr>
          (new_SentinelService
             \<lparr>failureThreshold = 3, recoveryTimeoutMs = 60000, successThreshold = 2\<rparr>))
   = registerSource 0
          \<lparr>src_id = ''a'', src_name = ''A'', src_url = ''http://a'', src_type = T_rss,
           src_selector = None, src_category = None, src_priority = 50, src_enabled = True\<rparr>
          (new_SentinelService
             \<lparr>failureThreshold = 3, recoveryTimeoutMs = 60000, successThreshold = 2\<rparr>)"
proof -
  let ?s = "registerSource 0
          \<lparr>src_id = ''a'', src_name = ''A'', src_url = ''http://a'', src_type = T_rss,
           src_selector = None, src_category = None, src_priority = 50, src_enabled = True\<rparr>
          (new_SentinelService
             \<lparr>failureThreshold = 3, recoveryTimeoutMs = 60000, successThreshold = 2\<rparr>)"
  have un: "circuitBreakers ?s ''ghost'' = None \<or> sourceStats ?s ''ghost'' = None"
    by (simp add: registerSource_def new_SentinelService_def)
  show ?thesis
    using C10_unregistered_noop [OF un, of 5 "Some 12" "''timeout''"] by simp
qed

section \<open>Properties of the fetch-news tool\<close>

lemma str_includes_iff: "str_includes str sub = (\<exists>p q. str = p @ sub @ q)"
proof (induction str)
  case Nil
  then show ?case by auto
next
  case (Cons c cs)
  have "startsWith (c # cs) sub = (\<exists>q. c # cs = sub @ q)"
    unfolding startsWith_def
    by (metis append_eq_conv_conj append_take_drop_id)
  moreover have "(\<exists>p q. c # cs = p @ sub @ q) =
      ((\<exists>q. c # cs = sub @ q) \<or> (\<exists>p q. cs = p @ sub @ q))"
  proof
    assume "\<exists>p q. c # cs = p @ sub @ q"
    then obtain p q where pq: "c # cs = p @ sub @ q" by blast
    show "(\<exists>q. c # cs = sub @ q) \<or> (\<exists>p q. cs = p @ sub @ q)"
    proof (cases p)
      case Nil
      then show ?thesis using pq by auto
    next
      case (Cons a p')
      then have "cs = p' @ sub @ q" using pq by simp
      then show ?thesis by blast
    qed
  next
    assume "(\<exists>q. c # cs = sub @ q) \<or> (\<exists>p q. cs = p @ sub @ q)"
    then show "\<exists>p q. c # cs = p @ sub @ q"
    proof
      assume "\<exists>q. c # cs = sub @ q"
      then obtain q where "c # cs = [] @ sub @ q" by auto
      then show ?thesis by blast
    next
      assume "\<exists>p q. cs = p @ sub @ q"
      then obtain p q where "c # cs = (c # p) @ sub @ q" by auto
      then show ?thesis by blast
    qed
  qed
  ultimately show ?case using Cons.IH by simp
qed

lemma matches_filter_ci_match: "matches_filter (toLowerCase f) = ci_match f"
  by (rule ext)
    (auto simp: matches_filter_def ci_match_def ci_contains_def str_includes_iff
      split: option.splits)

lemma insort_cmp_valid:
  assumes "\<forall>i \<in> set (x # ys). ni_publishedAt i \<noteq> Some InvalidDate"
  shows "insort_cmp compare_items x ys = Some (insort_key (\<lambda>i. - eff_time i) x ys)"
  using assms
proof (induction ys)
  case Nil
  then show ?case by simp
next
  case (Cons y ys)
  have tx: "item_time x = Some (eff_time x)" and ty: "item_time y = Some (eff_time y)"
    using Cons.prems
    by (auto simp: item_time_def eff_time_def split: option.splits JsDate.splits)
  have "insort_cmp compare_items x ys = Some (insort_key (\<lambda>i. - eff_time i) x ys)"
    using Cons.prems by (intro Cons.IH) simp
  moreover have "compare_items x y = Some (eff_time y - eff_time x)"
    unfolding compare_items_def by (simp add: tx ty)
  ultimately show ?case by simp
qed

lemma js_sort_valid:
  assumes "\<forall>i \<in> set items. ni_publishedAt i \<noteq> Some InvalidDate"
  shows "js_sort compare_items items = Some (sort_key (\<lambda>i. - eff_time i) items)"
  using assms
proof (induction items)
  case Nil
  then show ?case by simp
next
  case (Cons x xs)
  have ih: "js_sort compare_items xs = Some (sort_key (\<lambda>i. - eff_time i) xs)"
    using Cons.prems by (intro Cons.IH) simp
  have "\<forall>i \<in> set (x # sort_key (\<lambda>i. - eff_time i) xs). ni_publishedAt i \<noteq> Some InvalidDate"
    using Cons.prems by simp
  then show ?case by (simp add: ih insort_cmp_valid)
qed

lemma sorted_desc_sort_key:
  "sorted_wrt (\<lambda>a b. eff_time b \<le> eff_time a) (sort_key (\<lambda>i. - eff_time i) xs)"
proof -
  have "sorted (map (\<lambda>i. - eff_time i) (sort_key (\<lambda>i. - eff_time i) xs))"
    by (rule sorted_sort_key)
  then show ?thesis by (simp add: sorted_map)
qed

lemma sorted_wrt_take: "sorted_wrt P xs \<Longrightarrow> sorted_wrt P (take n xs)"
  by (induction xs arbitrary: n) (auto simp: take_Cons' dest: in_set_takeD)

lemma fetch_news_select_valid:
  assumes "\<forall>i \<in> set items. ni_publishedAt i \<noteq> Some InvalidDate"
  shows "fetch_news_select flt limit items =
           Some (take limit (sort_key (\<lambda>i. - eff_time i) (kept_items flt items)))"
proof -
  have k: "(case flt of None \<Rightarrow> items
            | Some f \<Rightarrow> if f = [] then items
                        else filter (matches_filter (toLowerCase f)) items) = kept_items flt items"
    by (cases flt) (simp_all add: kept_items_def matches_filter_ci_match)
  have "\<forall>i \<in> set (kept_items flt items). ni_publishedAt i \<noteq> Some InvalidDate"
    using assms by (auto simp: kept_items_def split: option.splits)
  then have "js_sort compare_items (kept_items flt items)
      = Some (sort_key (\<lambda>i. - eff_time i) (kept_items flt items))"
    by (rule js_sort_valid)
  then show ?thesis by (simp add: fetch_news_select_def k)
qed

text \<open>
  C8, as the code has it. For aggregated items none of which carries an Invalid Date, the
  handler returns: the items that pass the filter (a case-insensitive substring match
  against title, description or content; a missing or empty filter keeps every item),
  stably sorted by publish time descending, cut to the first \<open>limit\<close>. An item with no
  publish date is sorted as if dated at the Unix epoch (time 0): whatever follows it in
  the result is dated at or before the epoch or undated, and whatever precedes it is
  dated at or after the epoch or undated.
\<close>

theorem C8_fetch_news_select:
  assumes "\<forall>i \<in> set items. ni_publishedAt i \<noteq> Some InvalidDate"
  shows "\<exists>r. fetch_news_select flt limit items = Some r \<and>
           r = take limit (sort_key (\<lambda>i. - eff_time i) (kept_items flt items)) \<and>
           sorted_wrt (\<lambda>a b. eff_time b \<le> eff_time a) r \<and>
           length r = min limit (length (kept_items flt items)) \<and>
           set r \<subseteq> set (kept_items flt items) \<and>
           (\<forall>f. flt = Some f \<and> f \<noteq> [] \<longrightarrow> (\<forall>i \<in> set r. i \<in> set items \<and> ci_match f i)) \<and>
           (flt = None \<or> flt = Some [] \<longrightarrow> kept_items flt items = items) \<and>
           (\<forall>k l. k < l \<and> l < length r \<and> ni_publishedAt (r ! k) = None \<longrightarrow> eff_time (r ! l) \<le> 0) \<and>
           (\<forall>k l. k < l \<and> l < length r \<and> ni_publishedAt (r ! l) = None \<longrightarrow> 0 \<le> eff_time (r ! k))"
proof -
  let ?s = "sort_key (\<lambda>i. - eff_time i) (kept_items flt items)"
  let ?r = "take limit ?s"
  have res: "fetch_news_select flt limit items = Some ?r"
    using assms by (rule fetch_news_select_valid)
  have srt: "sorted_wrt (\<lambda>a b. eff_time b \<le> eff_time a) ?r"
    by (rule sorted_wrt_take) (rule sorted_desc_sort_key)
  have len: "length ?r = min limit (length (kept_items flt items))"
    by simp
  have sub: "set ?r \<subseteq> set (kept_items flt items)"
    using set_take_subset [of limit ?s] by simp
  have flt: "\<forall>f. flt = Some f \<and> f \<noteq> [] \<longrightarrow> (\<forall>i \<in> set ?r. i \<in> set items \<and> ci_match f i)"
    using sub by (auto simp: kept_items_def)
  have nofl: "flt = None \<or> flt = Some [] \<longrightarrow> kept_items flt items = items"
    by (auto simp: kept_items_def)
  have ord: "\<And>k l. k < l \<Longrightarrow> l < length ?r \<Longrightarrow> eff_time (?r ! l) \<le> eff_time (?r ! k)"
    using srt by (simp only: sorted_wrt_iff_nth_less)
  have z: "\<And>a. ni_publishedAt a = None \<Longrightarrow> eff_time a = 0"
    by (simp add: eff_time_def)
  have u1: "\<forall>k l. k < l \<and> l < length ?r \<and> ni_publishedAt (?r ! k) = None \<longrightarrow> eff_time (?r ! l) \<le> 0"
    using ord z by metis
  have u2: "\<forall>k l. k < l \<and> l < length ?r \<and> ni_publishedAt (?r ! l) = None \<longrightarrow> 0 \<le> eff_time (?r ! k)"
    using ord z by metis
  show ?thesis
    using res srt len sub flt nofl u1 u2 by blast
qed

theorem C8_witness:
  "fetch_news_select (Some ''ALPHA'') 2
     [mk_item ''1'' ''Alpha one'' None (Some (ValidDate 100)),
      mk_item ''2'' ''beta ALPHA'' None None,
      mk_item ''3'' ''Gamma'' None (Some (ValidDate 200)),
      mk_item ''4'' ''Delta'' (Some ''about alpha'') (Some (ValidDate 50)),
      mk_item ''5'' ''Old alpha'' None (Some (ValidDate (- 7)))]
   = Some [mk_item ''1'' ''Alpha one'' None (Some (ValidDate 100)),
           mk_item ''4'' ''Delta'' (Some ''about alpha'') (Some (ValidDate 50))]"
proof -
  let ?items = "[mk_item ''1'' ''Alpha one'' None (Some (ValidDate 100)),
      mk_item ''2'' ''beta ALPHA'' None None,
      mk_item ''3'' ''Gamma'' None (Some (ValidDate 200)),
      mk_item ''4'' ''Delta'' (Some ''about alpha'') (Some (ValidDate 50)),
      mk_item ''5'' ''Old alpha'' None (Some (ValidDate (- 7)))]"
  have v: "\<forall>i \<in> set ?items. ni_publishedAt i \<noteq> Some InvalidDate"
    by (simp add: mk_item_def)
  have ev: "fetch_news_select (Some ''ALPHA'') 2 ?items
     = Some [mk_item ''1'' ''Alpha one'' None (Some (ValidDate 100)),
           mk_item ''4'' ''Delta'' (Some ''about alpha'') (Some (ValidDate 50))]"
    by code_simp
  show ?thesis
    using C8_fetch_news_select [OF v, of "Some ''ALPHA''" 2] ev by simp
qed

text \<open>
  The statement of the specification fails here: an item with no publish date is not
  treated as the earliest. Below, the dated item (July 1969, a negative time value) comes
  after the undated one.
\<close>

theorem C8_counterexample:
  "fetch_news_select None 10
     [mk_item ''a'' ''Moon landing'' None (Some (ValidDate (- 14182940000))),
      mk_item ''b'' ''Undated note'' None None]
   = Some [mk_item ''b'' ''Undated note'' None None,
           mk_item ''a'' ''Moon landing'' None (Some (ValidDate (- 14182940000)))]"
  by (simp add: fetch_news_select_def compare_items_def item_time_def mk_item_def)

section \<open>Properties of the adapters\<close>

lemma or_else_nonempty: "b \<noteq> [] \<Longrightarrow> or_else a b \<noteq> []"
  by (simp add: or_else_def split: option.splits)

lemma or_else_cases:
  "or_else a b = (if str_truthy a then the a else b)"
  by (simp add: or_else_def str_truthy_def split: option.splits)

lemma rss_hashString_nonempty: "rss_hashString str \<noteq> []"
  by (simp add: rss_hashString_def)

lemma html_hashString_nonempty: "html_hashString str \<noteq> []"
  by (simp add: html_hashString_def)

lemma hashObject_nonempty: "hashObject env obj \<noteq> []"
  by (simp add: hashObject_def)

text \<open>
  How an identifier is resolved from an optional native identifier, an optional link and a
  fallback: the native identifier when it is a non-empty string, else the link when it is
  a non-empty string, else the fallback.
\<close>

lemma resolved_id:
  "or_else native (or_else link fallback) =
     (if str_truthy native then the native
      else if str_truthy link then the link
      else fallback)"
  by (simp add: or_else_cases)

lemma parseRSSItem_id:
  assumes "parseRSSItem env item sid sname = Some n"
  shows "ni_id n =
           (if str_truthy (rss_getString env (js_prop (JObj item) ''guid''))
            then the (rss_getString env (js_prop (JObj item) ''guid''))
            else if str_truthy (rss_getString env (js_prop (JObj item) ''link''))
            then the (rss_getString env (js_prop (JObj item) ''link''))
            else rss_hashString (the (rss_getString env (js_prop (JObj item) ''title''))))"
    and "\<not> str_truthy (rss_getString env (js_prop (JObj item) ''link'')) \<Longrightarrow>
         str_truthy (rss_getString env (js_prop (JObj item) ''title''))"
    and "ni_id n \<noteq> []"
proof -
  let ?link = "rss_getString env (js_prop (JObj item) ''link'')"
  let ?title = "rss_getString env (js_prop (JObj item) ''title'')"
  let ?guid = "rss_getString env (js_prop (JObj item) ''guid'')"
  have kept: "str_truthy ?link \<or> str_truthy ?title"
    using assms by (auto simp: parseRSSItem_def Let_def split: if_splits)
  have ident: "ni_id n = or_else ?guid (or_else ?link (rss_hashString (or_else ?title [])))"
    using assms by (auto simp: parseRSSItem_def Let_def split: if_splits)
  show "\<not> str_truthy ?link \<Longrightarrow> str_truthy ?title"
    using kept by blast
  show "ni_id n =
           (if str_truthy ?guid then the ?guid
            else if str_truthy ?link then the ?link
            else rss_hashString (the ?title))"
    using kept unfolding ident resolved_id by (auto simp: or_else_cases)
  show "ni_id n \<noteq> []"
    unfolding ident by (intro or_else_nonempty rss_hashString_nonempty)
qed

lemma parseAtomEntry_id:
  assumes "parseAtomEntry env entry sid sname = Some n"
  shows "ni_id n =
           (if str_truthy (rss_getString env (js_prop (JObj entry) ''id''))
            then the (rss_getString env (js_prop (JObj entry) ''id''))
            else if str_truthy (getAtomLink env (js_prop (JObj entry) ''link''))
            then the (getAtomLink env (js_prop (JObj entry) ''link''))
            else rss_hashString (the (rss_getString env (js_prop (JObj entry) ''title''))))"
    and "\<not> str_truthy (getAtomLink env (js_prop (JObj entry) ''link'')) \<Longrightarrow>
         str_truthy (rss_getString env (js_prop (JObj entry) ''title''))"
    and "ni_id n \<noteq> []"
proof -
  let ?link = "getAtomLink env (js_prop (JObj entry) ''link'')"
  let ?title = "rss_getString env (js_prop (JObj entry) ''title'')"
  let ?ident = "rss_getString env (js_prop (JObj entry) ''id'')"
  have kept: "str_truthy ?link \<or> str_truthy ?title"
    using assms by (auto simp: parseAtomEntry_def Let_def split: if_splits)
  have ident: "ni_id n = or_else ?ident (or_else ?link (rss_hashString (or_else ?title [])))"
    using assms by (auto simp: parseAtomEntry_def Let_def split: if_splits)
  show "\<not> str_truthy ?link \<Longrightarrow> str_truthy ?title"
    using kept by blast
  show "ni_id n =
           (if str_truthy ?ident then the ?ident
            else if str_truthy ?link then the ?link
            else rss_hashString (the ?title))"
    using kept unfolding ident resolved_id by (auto simp: or_else_cases)
  show "ni_id n \<noteq> []"
    unfolding ident by (intro or_else_nonempty rss_hashString_nonempty)
qed

lemma mapToNewsItem_id:
  assumes "mapToNewsItem env item sid sname = Some n"
  shows "\<exists>obj. item = JObj obj \<and>
           ni_id n =
             (if str_truthy (json_getString env obj [''id'', ''guid'', ''uuid''])
              then the (json_getString env obj [''id'', ''guid'', ''uuid''])
              else if str_truthy (json_getString env obj [''link'', ''url'', ''href'', ''permalink''])
              then the (json_getString env obj [''link'', ''url'', ''href'', ''permalink''])
              else ''json-'' @ abs_hash (hash_loop (JSON_stringify env item)))"
    and "ni_id n \<noteq> []"
proof -
  obtain obj where obj: "item = JObj obj"
    using assms by (cases item) (simp_all add: mapToNewsItem_def)
  let ?link = "json_getString env obj [''link'', ''url'', ''href'', ''permalink'']"
  let ?native = "json_getString env obj [''id'', ''guid'', ''uuid'']"
  have ident: "ni_id n = or_else ?native (or_else ?link (hashObject env (JObj obj)))"
    using assms unfolding obj mapToNewsItem_def Let_def
    by (auto split: if_splits)
  show "\<exists>obj. item = JObj obj \<and>
           ni_id n =
             (if str_truthy (json_getString env obj [''id'', ''guid'', ''uuid''])
              then the (json_getString env obj [''id'', ''guid'', ''uuid''])
              else if str_truthy (json_getString env obj [''link'', ''url'', ''href'', ''permalink''])
              then the (json_getString env obj [''link'', ''url'', ''href'', ''permalink''])
              else ''json-'' @ abs_hash (hash_loop (JSON_stringify env item)))"
    using obj ident by (simp add: resolved_id hashObject_def)
  show "ni_id n \<noteq> []"
    unfolding ident by (intro or_else_nonempty hashObject_nonempty)
qed

lemma extractItem_id:
  assumes "extractItem env element sid sname options = Some n"
  shows "ni_id n =
           ''html-'' @ abs_hash (hash_loop
              (if str_truthy (map_option fst (el_link element))
               then fst (the (el_link element))
               else ni_title n))"
    and "ni_id n \<noteq> []"
proof -
  let ?link = "or_else (map_option fst (el_link element)) []"
  let ?title = "or_else (map_option js_trim (el_title element))
                    (or_else (map_option (js_trim \<circ> snd) (el_link element)) [])"
  have kept: "?link \<noteq> [] \<or> ?title \<noteq> []"
    using assms by (auto simp: extractItem_def Let_def split: if_splits)
  have ident: "ni_id n = html_hashString (if ?link \<noteq> [] then ?link else ?title)"
    using assms by (auto simp: extractItem_def Let_def split: if_splits)
  have title: "ni_title n = or_else (Some ?title) ''Untitled''"
    using assms by (auto simp: extractItem_def Let_def split: if_splits)
  have l: "?link \<noteq> [] \<longleftrightarrow> str_truthy (map_option fst (el_link element))"
    by (auto simp: or_else_def str_truthy_def split: option.splits)
  have l2: "str_truthy (map_option fst (el_link element)) \<Longrightarrow> ?link = fst (the (el_link element))"
    by (auto simp: or_else_def str_truthy_def split: option.splits)
  have t: "?link = [] \<Longrightarrow> ni_title n = ?title"
    using kept unfolding title by (auto simp: or_else_def)
  show "ni_id n =
           ''html-'' @ abs_hash (hash_loop
              (if str_truthy (map_option fst (el_link element))
               then fst (the (el_link element))
               else ni_title n))"
    unfolding ident html_hashString_def using l l2 t by auto
  show "ni_id n \<noteq> []"
    unfolding ident by (rule html_hashString_nonempty)
qed

text \<open>
  C4, as the code has it. For every item that an adapter keeps, the id is non-empty and:
  \<^item> RSS: the string of \<open>guid\<close> when non-empty, else the link when non-empty, else
    \<open>hash-\<close> and the decimal hash of the title (which is then non-empty);
  \<^item> Atom: the same with the entry's \<open>id\<close> and its alternate link;
  \<^item> JSON: the first present of \<open>id\<close>, \<open>guid\<close>, \<open>uuid\<close> when it gives a non-empty
    string, else the first present of \<open>link\<close>, \<open>url\<close>, \<open>href\<close>, \<open>permalink\<close> when
    non-empty, else \<open>json-\<close> and the decimal hash of the serialisation of the whole
    object, not of the title;
  \<^item> HTML: always \<open>html-\<close> and the decimal hash of the \<open>href\<close> of the first link when
    non-empty, else of the title; no identifier of the page and no link is used as
    the id itself.
  The id is computed from the item alone: the source id, the source name and the
  options of the call do not enter it.
\<close>

theorem C4_item_ids:
  "(parseRSSItem env item sid sname = Some n1 \<longrightarrow>
      ni_id n1 \<noteq> [] \<and>
      ni_id n1 =
        (if str_truthy (rss_getString env (js_prop (JObj item) ''guid''))
         then the (rss_getString env (js_prop (JObj item) ''guid''))
         else if str_truthy (rss_getString env (js_prop (JObj item) ''link''))
         then the (rss_getString env (js_prop (JObj item) ''link''))
         else ''hash-'' @ abs_hash (hash_loop (the (rss_getString env (js_prop (JObj item) ''title''))))) \<and>
      (str_truthy (rss_getString env (js_prop (JObj item) ''link'')) \<or>
       str_truthy (rss_getString env (js_prop (JObj item) ''title''))) \<and>
      map_option ni_id (parseRSSItem env item sid' sname') = Some (ni_id n1)) \<and>
   (parseAtomEntry env entry sid sname = Some n2 \<longrightarrow>
      ni_id n2 \<noteq> [] \<and>
      ni_id n2 =
        (if str_truthy (rss_getString env (js_prop (JObj entry) ''id''))
         then the (rss_getString env (js_prop (JObj entry) ''id''))
         else if str_truthy (getAtomLink env (js_prop (JObj entry) ''link''))
         then the (getAtomLink env (js_prop (JObj entry) ''link''))
         else ''hash-'' @ abs_hash (hash_loop (the (rss_getString env (js_prop (JObj entry) ''title''))))) \<and>
      (str_truthy (getAtomLink env (js_prop (JObj entry) ''link'')) \<or>
       str_truthy (rss_getString env (js_prop (JObj entry) ''title''))) \<and>
      map_option ni_id (parseAtomEntry env entry sid' sname') = Some (ni_id n2)) \<and>
   (mapToNewsItem env jitem sid sname = Some n3 \<longrightarrow>
      ni_id n3 \<noteq> [] \<and>
      (\<exists>obj. jitem = JObj obj \<and>
         ni_id n3 =
           (if str_truthy (json_getString env obj [''id'', ''guid'', ''uuid''])
            then the (json_getString env obj [''id'', ''guid'', ''uuid''])
            else if str_truthy (json_getString env obj [''link'', ''url'', ''href'', ''permalink''])
            then the (json_getString env obj [''link'', ''url'', ''href'', ''permalink''])
            else ''json-'' @ abs_hash (hash_loop (JSON_stringify env jitem)))) \<and>
      map_option ni_id (mapToNewsItem env jitem sid' sname') = Some (ni_id n3)) \<and>
   (extractItem env element sid sname options = Some n4 \<longrightarrow>
      ni_id n4 \<noteq> [] \<and>
      ni_id n4 =
        ''html-'' @ abs_hash (hash_loop
           (if str_truthy (map_option fst (el_link element))
            then fst (the (el_link element))
            else ni_title n4)) \<and>
      map_option ni_id (extractItem env element sid' sname' options') = Some (ni_id n4))"
proof (intro conjI impI)
  assume a: "parseRSSItem env item sid sname = Some n1"
  show "ni_id n1 \<noteq> []" using a by (rule parseRSSItem_id(3))
  show "ni_id n1 =
        (if str_truthy (rss_getString env (js_prop (JObj item) ''guid''))
         then the (rss_getString env (js_prop (JObj item) ''guid''))
         else if str_truthy (rss_getString env (js_prop (JObj item) ''link''))
         then the (rss_getString env (js_prop (JObj item) ''link''))
         else ''hash-'' @ abs_hash (hash_loop (the (rss_getString env (js_prop (JObj item) ''title'')))))"
    using parseRSSItem_id(1) [OF a] by (simp add: rss_hashString_def)
  show "str_truthy (rss_getString env (js_prop (JObj item) ''link'')) \<or>
       str_truthy (rss_getString env (js_prop (JObj item) ''title''))"
    using parseRSSItem_id(2) [OF a] by blast
  show "map_option ni_id (parseRSSItem env item sid' sname') = Some (ni_id n1)"
    using a by (auto simp: parseRSSItem_def Let_def split: if_splits)
next
  assume a: "parseAtomEntry env entry sid sname = Some n2"
  show "ni_id n2 \<noteq> []" using a by (rule parseAtomEntry_id(3))
  show "ni_id n2 =
        (if str_truthy (rss_getString env (js_prop (JObj entry) ''id''))
         then the (rss_getString env (js_prop (JObj entry) ''id''))
         else if str_truthy (getAtomLink env (js_prop (JObj entry) ''link''))
         then the (getAtomLink env (js_prop (JObj entry) ''link''))
         else ''hash-'' @ abs_hash (hash_loop (the (rss_getString env (js_prop (JObj entry) ''title'')))))"
    using parseAtomEntry_id(1) [OF a] by (simp add: rss_hashString_def)
  show "str_truthy (getAtomLink env (js_prop (JObj entry) ''link'')) \<or>
       str_truthy (rss_getString env (js_prop (JObj entry) ''title''))"
    using parseAtomEntry_id(2) [OF a] by blast
  show "map_option ni_id (parseAtomEntry env entry sid' sname') = Some (ni_id n2)"
    using a by (auto simp: parseAtomEntry_def Let_def split: if_splits)
next
  assume a: "mapToNewsItem env jitem sid sname = Some n3"
  show "ni_id n3 \<noteq> []" using a by (rule mapToNewsItem_id(2))
  show "\<exists>obj. jitem = JObj obj \<and>
         ni_id n3 =
           (if str_truthy (json_getString env obj [''id'', ''guid'', ''uuid''])
            then the (json_getString env obj [''id'', ''guid'', ''uuid''])
            else if str_truthy (json_getString env obj [''link'', ''url'', ''href'', ''permalink''])
            then the (json_getString env obj [''link'', ''url'', ''href'', ''permalink''])
            else ''json-'' @ abs_hash (hash_loop (JSON_stringify env jitem)))"
    using a by (rule mapToNewsItem_id(1))
  show "map_option ni_id (mapToNewsItem env jitem sid' sname') = Some (ni_id n3)"
    using a by (cases jitem) (auto simp: mapToNewsItem_def Let_def split: if_splits)
next
  assume a: "extractItem env element sid sname options = Some n4"
  show "ni_id n4 \<noteq> []" using a by (rule extractItem_id(2))
  show "ni_id n4 =
        ''html-'' @ abs_hash (hash_loop
           (if str_truthy (map_option fst (el_link element))
            then fst (the (el_link element))
            else ni_title n4))"
    using a by (rule extractItem_id(1))
  show "map_option ni_id (extractItem env element sid' sname' options') = Some (ni_id n4)"
    using a by (auto simp: extractItem_def Let_def split: if_splits)
qed

theorem C4_witness:
  "map_option ni_id (parseRSSItem example_env
      [(''guid'', JStr ''g-1''), (''link'', JStr ''http://x/1''), (''title'', JStr ''T'')]
      ''s2'' ''S2'') = Some ''g-1'' \<and>
   map_option ni_id (parseAtomEntry example_env [(''title'', JStr ''Hello'')] ''s2'' ''S2'')
     = Some ''hash-69609650'' \<and>
   map_option ni_id (mapToNewsItem example_env
      (JObj [(''url'', JStr ''http://x/2''), (''title'', JStr ''J'')]) ''s2'' ''S2'')
     = Some ''http://x/2'' \<and>
   map_option ni_id (extractItem example_env example_element ''s2'' ''S2''
      \<lparr>opt_selector = None, opt_baseUrl = Some ''https://example.com/''\<rparr>)
     = Some ''html-1716875424''"
proof -
  let ?item = "[(''guid'', JStr ''g-1''), (''link'', JStr ''http://x/1''), (''title'', JStr ''T'')]"
  let ?entry = "[(''title'', JStr ''Hello'')]"
  let ?jitem = "JObj [(''url'', JStr ''http://x/2''), (''title'', JStr ''J'')]"
  let ?opts = "\<lparr>opt_selector = None, opt_baseUrl = None\<rparr>"
  let ?n1 = "the (parseRSSItem example_env ?item ''s'' ''S'')"
  let ?n2 = "the (parseAtomEntry example_env ?entry ''s'' ''S'')"
  let ?n3 = "the (mapToNewsItem example_env ?jitem ''s'' ''S'')"
  let ?n4 = "the (extractItem example_env example_element ''s'' ''S'' ?opts)"
  have e1: "parseRSSItem example_env ?item ''s'' ''S'' = Some ?n1" by code_simp
  have e2: "parseAtomEntry example_env ?entry ''s'' ''S'' = Some ?n2" by code_simp
  have e3: "mapToNewsItem example_env ?jitem ''s'' ''S'' = Some ?n3" by code_simp
  have e4: "extractItem example_env example_element ''s'' ''S'' ?opts = Some ?n4" by code_simp
  have i1: "ni_id ?n1 = ''g-1''" by code_simp
  have i2: "ni_id ?n2 = ''hash-69609650''" by code_simp
  have i3: "ni_id ?n3 = ''http://x/2''" by code_simp
  have i4: "ni_id ?n4 = ''html-1716875424''" by code_simp
  note th = C4_item_ids [of example_env ?item "''s''" "''S''" ?n1 "''s2''" "''S2''"
      ?entry ?n2 ?jitem ?n3 example_element ?opts ?n4
      "\<lparr>opt_selector = None, opt_baseUrl = Some ''https://example.com/''\<rparr>"]
  show ?thesis
    using th e1 e2 e3 e4 by (simp only: i1 i2 i3 i4 simp_thms)
qed

text \<open>
  The statement of the specification fails for the HTML adapter: the element below
  has a link and a title, and the id of its item is neither a native identifier nor the
  link, but a hash of the link.
\<close>

theorem C4_counterexample:
  "map_option ni_link (extractItem example_env example_element ''s'' ''S''
      \<lparr>opt_selector = None, opt_baseUrl = None\<rparr>) = Some ''https://example.com/a'' \<and>
   map_option ni_id (extractItem example_env example_element ''s'' ''S''
      \<lparr>opt_selector = None, opt_baseUrl = None\<rparr>) = Some ''html-1716875424''"
  by code_simp

end
